theory Spec2Isabelle
  imports Main "HOL-Library.AList"
begin

section \<open>Values and effects\<close>

text \<open>
  Event payloads are JavaScript objects. An object is an association list in insertion
  order; \<open>AList.update\<close> is the assignment \<open>obj[k] = v\<close> (the value is replaced in place
  when the key exists, the pair is appended otherwise), which is also how the object
  spread \<open>{...data, k: v}\<close> and \<open>Map.set\<close> behave, and \<open>AList.delete\<close> is
  \<open>Map.delete\<close>.
\<close>

datatype json =
    JNull
  | JBool bool
  | JNum int
  | JStr string
  | JArr "json list"
  | JObj "(string \<times> json) list"

type_synonym obj = "(string \<times> json) list"

text \<open>
  Every call into socket.io that sends something or changes socket.io's own rooms is
  recorded, in program order, in the \<open>outbox\<close> of the state:
  \<^item> \<open>SocketEmit s ev p\<close>: \<open>socket.emit(ev, p)\<close> on the socket with id \<open>s\<close> (that socket only);
  \<^item> \<open>SocketToEmit s r ev p\<close>: \<open>socket.to(r).emit(ev, p)\<close> (the sockets in room \<open>r\<close> other than \<open>s\<close>);
  \<^item> \<open>SocketJoin s r\<close>, \<open>SocketLeave s r\<close>: \<open>socket.join(r)\<close>, \<open>socket.leave(r)\<close>;
  \<^item> \<open>SocketDisconnect s\<close>: \<open>socket.disconnect(true)\<close> on a connected socket;
  \<^item> \<open>IoEmit ev p\<close>: \<open>io.emit(ev, p)\<close> (every connected socket);
  \<^item> \<open>IoToEmit t ev p\<close>: \<open>io.to(t).emit(ev, p)\<close>;
  \<^item> \<open>ManagerEmit ev p\<close>: \<open>this.emit(ev, p)\<close> of the manager's own EventEmitter.
\<close>

datatype action =
    SocketEmit string string obj
  | SocketToEmit string string string obj
  | SocketJoin string string
  | SocketLeave string string
  | SocketDisconnect string
  | IoEmit string obj
  | IoToEmit string string obj
  | ManagerEmit string obj

section \<open>The state of the WebSocketManager\<close>

record userInfo =
  socketId :: string
  userData :: obj

text \<open>
  A socket object of socket.io, as far as the manager uses it: the \<open>username\<close> property
  the manager sets on it, and whether it is connected (a connected socket is the one
  \<open>io.sockets.sockets.get(id)\<close> finds).
\<close>

record socket =
  username :: "string option"
  connected :: bool

record metrics =
  totalConnections :: int
  currentConnections :: int
  totalDisconnections :: int

record wsm =
  isInitialized :: bool
  connectedUsers :: "(string \<times> userInfo) list"
  userSockets :: "(string \<times> string) list"
  rooms :: "(string \<times> string list) list"
  connectionMetrics :: metrics
  sockets :: "(string \<times> socket) list"
  outbox :: "action list"

definition constructor :: wsm where
  "constructor =
     \<lparr> isInitialized = False, connectedUsers = [], userSockets = [], rooms = [],
       connectionMetrics =
         \<lparr> totalConnections = 0, currentConnections = 0, totalDisconnections = 0 \<rparr>,
       sockets = [], outbox = [] \<rparr>"

text \<open>JavaScript truthiness of a value that is a string or undefined.\<close>

fun truthy :: "string option \<Rightarrow> bool" where
  "truthy None = False"
| "truthy (Some s) = (s \<noteq> [])"

definition emit :: "action \<Rightarrow> wsm \<Rightarrow> wsm" where
  "emit a st = st\<lparr>outbox := outbox st @ [a]\<rparr>"

text \<open>\<open>Set.add\<close> and \<open>Set.delete\<close> on a set kept in insertion order.\<close>

definition set_add :: "string \<Rightarrow> string list \<Rightarrow> string list" where
  "set_add u us = (if u \<in> set us then us else us @ [u])"

definition set_delete :: "string \<Rightarrow> string list \<Rightarrow> string list" where
  "set_delete u us = removeAll u us"

definition io_sockets_get :: "wsm \<Rightarrow> string \<Rightarrow> socket option" where
  "io_sockets_get st s =
     (case map_of (sockets st) s of
        None \<Rightarrow> None
      | Some sock \<Rightarrow> if connected sock then Some sock else None)"

definition socket_username :: "wsm \<Rightarrow> string \<Rightarrow> string option" where
  "socket_username st s =
     (case map_of (sockets st) s of None \<Rightarrow> None | Some sock \<Rightarrow> username sock)"

section \<open>Handlers of the WebSocketManager\<close>

definition initialize :: "wsm \<Rightarrow> wsm" where
  "initialize st = (if isInitialized st then st else st\<lparr>isInitialized := True\<rparr>)"

definition handleConnection :: "wsm \<Rightarrow> string \<Rightarrow> wsm" where
  "handleConnection st s =
     (let m = connectionMetrics st;
          st1 = st\<lparr>connectionMetrics :=
                    m\<lparr>totalConnections := totalConnections m + 1,
                      currentConnections := currentConnections m + 1\<rparr>\<rparr>
      in emit (ManagerEmit ''connection'' [(''socket'', JStr s)]) st1)"

definition broadcastUserStatus :: "wsm \<Rightarrow> string \<Rightarrow> string \<Rightarrow> string \<Rightarrow> wsm" where
  "broadcastUserStatus st u status now =
     emit (IoEmit ''user_status''
             [(''username'', JStr u), (''status'', JStr status), (''timestamp'', JStr now)]) st"

text \<open>
  The loop of \<open>handleDisconnection\<close> over \<open>this.rooms.entries()\<close>: the rooms that are
  left, and the \<open>user_left_room\<close> emissions in iteration order.
\<close>

fun removeFromAllRooms ::
  "string \<Rightarrow> string \<Rightarrow> (string \<times> string list) list \<Rightarrow> (string \<times> string list) list \<times> action list"
where
  "removeFromAllRooms s u [] = ([], [])"
| "removeFromAllRooms s u ((room, users) # rest) =
     (let (rest', acts) = removeFromAllRooms s u rest
      in if u \<in> set users
         then (let users' = set_delete u users;
                   a = SocketToEmit s room ''user_left_room''
                         [(''room'', JStr room), (''username'', JStr u)]
               in (if length users' = 0 then rest' else (room, users') # rest', a # acts))
         else ((room, users) # rest', acts))"

definition handleDisconnection :: "wsm \<Rightarrow> string \<Rightarrow> string \<Rightarrow> string \<Rightarrow> wsm" where
  "handleDisconnection st s reason now =
     (let m = connectionMetrics st;
          st1 = st\<lparr>connectionMetrics :=
                    m\<lparr>currentConnections := currentConnections m - 1,
                      totalDisconnections := totalDisconnections m + 1\<rparr>\<rparr>
      in case map_of (userSockets st1) s of
           None \<Rightarrow> st1
         | Some u \<Rightarrow>
             if u = [] then st1
             else (let (rs, acts) = removeFromAllRooms s u (rooms st1);
                       st2 = st1\<lparr>connectedUsers := AList.delete u (connectedUsers st1),
                                 userSockets := AList.delete s (userSockets st1),
                                 rooms := rs,
                                 outbox := outbox st1 @ acts\<rparr>
                   in emit (ManagerEmit ''user_disconnected''
                              [(''username'', JStr u), (''reason'', JStr reason),
                               (''socket'', JStr s)])
                        (broadcastUserStatus st2 u ''offline'' now)))"

text \<open>
  socket.io closes a socket in \<open>Socket._onclose\<close>: the socket leaves
  \<open>io.sockets.sockets\<close>, its \<open>connected\<close> flag is cleared, and then the \<open>disconnect\<close>
  event runs the handler registered in \<open>setupSocketHandlers\<close>, synchronously.
  \<open>Socket.disconnect(true)\<close> does nothing on a socket that is not connected and goes
  through \<open>_onclose\<close> with reason \<open>server namespace disconnect\<close> otherwise, before it
  returns.
\<close>

definition socket_onclose :: "wsm \<Rightarrow> string \<Rightarrow> string \<Rightarrow> string \<Rightarrow> wsm" where
  "socket_onclose st s reason now =
     (case map_of (sockets st) s of
        None \<Rightarrow> st
      | Some sock \<Rightarrow>
          if connected sock
          then handleDisconnection
                 (st\<lparr>sockets := AList.update s (sock\<lparr>connected := False\<rparr>) (sockets st)\<rparr>)
                 s reason now
          else st)"

definition socket_disconnect :: "wsm \<Rightarrow> string \<Rightarrow> string \<Rightarrow> wsm" where
  "socket_disconnect st s now =
     (case io_sockets_get st s of
        None \<Rightarrow> st
      | Some sock \<Rightarrow>
          socket_onclose (emit (SocketDisconnect s) st) s ''server namespace disconnect'' now)"

definition removeUserFromPreviousSocket :: "wsm \<Rightarrow> string \<Rightarrow> string \<Rightarrow> wsm" where
  "removeUserFromPreviousSocket st u now =
     (case map_of (connectedUsers st) u of
        None \<Rightarrow> st
      | Some previousConnection \<Rightarrow>
          (let st1 = (case io_sockets_get st (socketId previousConnection) of
                        None \<Rightarrow> st
                      | Some previousSocket \<Rightarrow>
                          socket_disconnect st (socketId previousConnection) now)
           in st1\<lparr>userSockets :=
                    AList.delete (socketId previousConnection) (userSockets st1)\<rparr>))"

text \<open>
  The payload of \<open>authenticate\<close>: \<open>{ username, token, userData = {} }\<close>. A payload that
  is absent makes the destructuring throw, which the handler catches.
\<close>

record authData =
  auth_username :: "string option"
  auth_token :: "string option"
  auth_userData :: "obj option"

definition set_socket_username ::
  "string \<Rightarrow> string \<Rightarrow> (string \<times> socket) list \<Rightarrow> (string \<times> socket) list" where
  "set_socket_username s u socks =
     (case map_of socks s of
        None \<Rightarrow> socks
      | Some sock \<Rightarrow> AList.update s (sock\<lparr>username := Some u\<rparr>) socks)"

definition handleAuthentication :: "wsm \<Rightarrow> string \<Rightarrow> authData option \<Rightarrow> string \<Rightarrow> wsm" where
  "handleAuthentication st s data now =
     (case data of
        None \<Rightarrow>
          emit (SocketEmit s ''authentication_error''
                  [(''error'', JStr ''Authentication failed'')]) st
      | Some d \<Rightarrow>
          if \<not> truthy (auth_username d)
          then emit (SocketEmit s ''authentication_error''
                       [(''error'', JStr ''Username is required'')]) st
          else (case auth_username d of
                  None \<Rightarrow> st
                | Some u \<Rightarrow>
                    (let ud = (case auth_userData d of None \<Rightarrow> [] | Some x \<Rightarrow> x);
                         st1 = removeUserFromPreviousSocket st u now;
                         st2 = st1\<lparr>connectedUsers :=
                                    AList.update u
                                      \<lparr>socketId = s,
                                       userData =
                                         AList.update ''lastSeen'' (JStr now)
                                           (AList.update ''connectedAt'' (JStr now) ud)\<rparr>
                                      (connectedUsers st1)\<rparr>;
                         st3 = st2\<lparr>userSockets := AList.update s u (userSockets st2)\<rparr>;
                         st4 = st3\<lparr>sockets := set_socket_username s u (sockets st3)\<rparr>;
                         st5 = emit (SocketJoin s (''user_'' @ u)) st4;
                         st6 = emit (SocketEmit s ''authenticated''
                                       [(''success'', JBool True),
                                        (''message'', JStr ''Successfully authenticated''),
                                        (''username'', JStr u),
                                        (''connectedUsers'',
                                           JNum (int (length (connectedUsers st5))))]) st5;
                         st7 = broadcastUserStatus st6 u ''online'' now
                     in emit (ManagerEmit ''user_authenticated''
                                [(''username'', JStr u), (''socket'', JStr s),
                                 (''userData'', JObj ud)]) st7)))"

definition handlePing :: "wsm \<Rightarrow> string \<Rightarrow> string \<Rightarrow> int \<Rightarrow> wsm" where
  "handlePing st s now ms =
     (let st1 = emit (SocketEmit s ''pong''
                        [(''timestamp'', JStr now), (''serverTime'', JNum ms)]) st
      in case map_of (userSockets st1) s of
           None \<Rightarrow> st1
         | Some u \<Rightarrow>
             if u = [] then st1
             else (case map_of (connectedUsers st1) u of
                     None \<Rightarrow> st1
                   | Some userInfo \<Rightarrow>
                       st1\<lparr>connectedUsers :=
                             AList.update u
                               (userInfo\<lparr>userData :=
                                   AList.update ''lastSeen'' (JStr now) (userData userInfo)\<rparr>)
                               (connectedUsers st1)\<rparr>))"

definition room_add ::
  "string \<Rightarrow> string \<Rightarrow> (string \<times> string list) list \<Rightarrow> (string \<times> string list) list" where
  "room_add room u rs =
     (case map_of rs room of
        None \<Rightarrow> rs
      | Some users \<Rightarrow> AList.update room (set_add u users) rs)"

definition getRoomUsers :: "wsm \<Rightarrow> string \<Rightarrow> string list" where
  "getRoomUsers st room = (case map_of (rooms st) room of None \<Rightarrow> [] | Some users \<Rightarrow> users)"

definition getAllRooms :: "wsm \<Rightarrow> string list" where
  "getAllRooms st = map fst (rooms st)"

definition handleJoinRoom :: "wsm \<Rightarrow> string \<Rightarrow> string \<Rightarrow> wsm" where
  "handleJoinRoom st s room =
     (case socket_username st s of
        None \<Rightarrow> emit (SocketEmit s ''room_error'' [(''error'', JStr ''Authentication required'')]) st
      | Some u \<Rightarrow>
          if u = []
          then emit (SocketEmit s ''room_error'' [(''error'', JStr ''Authentication required'')]) st
          else (let st1 = emit (SocketJoin s room) st;
                    rs1 = (if map_of (rooms st1) room = None
                           then AList.update room [] (rooms st1) else rooms st1);
                    st2 = st1\<lparr>rooms := room_add room u rs1\<rparr>;
                    st3 = emit (SocketEmit s ''room_joined''
                                  [(''room'', JStr room),
                                   (''users'', JArr (map JStr (getRoomUsers st2 room)))]) st2;
                    st4 = emit (SocketToEmit s room ''user_joined_room''
                                  [(''room'', JStr room), (''username'', JStr u)]) st3
                in emit (ManagerEmit ''user_joined_room''
                           [(''username'', JStr u), (''room'', JStr room),
                            (''socket'', JStr s)]) st4))"

definition room_remove ::
  "string \<Rightarrow> string \<Rightarrow> (string \<times> string list) list \<Rightarrow> (string \<times> string list) list" where
  "room_remove room u rs =
     (case map_of rs room of
        None \<Rightarrow> rs
      | Some users \<Rightarrow>
          (let users' = set_delete u users
           in if length users' = 0 then AList.delete room rs
              else AList.update room users' rs))"

definition handleLeaveRoom :: "wsm \<Rightarrow> string \<Rightarrow> string \<Rightarrow> wsm" where
  "handleLeaveRoom st s room =
     (case socket_username st s of
        None \<Rightarrow> st
      | Some u \<Rightarrow>
          if u = [] then st
          else (let st1 = emit (SocketLeave s room) st;
                    st2 = st1\<lparr>rooms := room_remove room u (rooms st1)\<rparr>;
                    st3 = emit (SocketEmit s ''room_left'' [(''room'', JStr room)]) st2;
                    st4 = emit (SocketToEmit s room ''user_left_room''
                                  [(''room'', JStr room), (''username'', JStr u)]) st3
                in emit (ManagerEmit ''user_left_room''
                           [(''username'', JStr u), (''room'', JStr room),
                            (''socket'', JStr s)]) st4))"

subsection \<open>Queries\<close>

definition isUserOnline :: "wsm \<Rightarrow> string \<Rightarrow> bool" where
  "isUserOnline st u = (map_of (connectedUsers st) u \<noteq> None)"

definition getConnectedUsers :: "wsm \<Rightarrow> string list" where
  "getConnectedUsers st = map fst (connectedUsers st)"

definition getConnectedUsersCount :: "wsm \<Rightarrow> nat" where
  "getConnectedUsersCount st = length (connectedUsers st)"

definition getUserInfo :: "wsm \<Rightarrow> string \<Rightarrow> userInfo option" where
  "getUserInfo st u = map_of (connectedUsers st) u"

record snapshot =
  snap_totalConnections :: int
  snap_currentConnections :: int
  snap_totalDisconnections :: int
  snap_rooms :: int
  snap_roomUsers :: "(string \<times> int) list"

definition getConnectionMetrics :: "wsm \<Rightarrow> snapshot" where
  "getConnectionMetrics st =
     \<lparr> snap_totalConnections = totalConnections (connectionMetrics st),
       snap_currentConnections = int (length (connectedUsers st)),
       snap_totalDisconnections = totalDisconnections (connectionMetrics st),
       snap_rooms = int (length (rooms st)),
       snap_roomUsers = map (\<lambda>(room, users). (room, int (length users))) (rooms st) \<rparr>"

datatype error = NotInitialized

definition getIO :: "wsm \<Rightarrow> error + unit" where
  "getIO st = (if \<not> isInitialized st then Inl NotInitialized else Inr ())"

section \<open>MessageService\<close>

text \<open>
  \<open>formatMessage\<close> reads the clock and the environment variable \<open>SERVER_ID\<close>; both are
  parameters here (\<open>now\<close> is the ISO timestamp, \<open>env\<close> the variable, \<open>None\<close> when unset).
\<close>

definition formatMessage :: "obj \<Rightarrow> string \<Rightarrow> string option \<Rightarrow> obj" where
  "formatMessage data now env =
     AList.update ''serverId''
       (JStr (case env of None \<Rightarrow> ''server-1'' | Some v \<Rightarrow> if v = [] then ''server-1'' else v))
       (AList.update ''timestamp'' (JStr now) data)"

definition sendToUser ::
  "wsm \<Rightarrow> string \<Rightarrow> string \<Rightarrow> obj \<Rightarrow> string \<Rightarrow> string option \<Rightarrow> bool \<times> wsm" where
  "sendToUser st u ev data now env =
     (case getUserInfo st u of
        None \<Rightarrow> (False, st)
      | Some userInfo \<Rightarrow>
          (case getIO st of
             Inl e \<Rightarrow> (False, st)
           | Inr io \<Rightarrow>
               (True, emit (IoToEmit (socketId userInfo) ev (formatMessage data now env)) st)))"

definition broadcast ::
  "wsm \<Rightarrow> string \<Rightarrow> obj \<Rightarrow> string \<Rightarrow> string option \<Rightarrow> bool \<times> wsm" where
  "broadcast st ev data now env =
     (case getIO st of
        Inl e \<Rightarrow> (False, st)
      | Inr io \<Rightarrow> (True, emit (IoEmit ev (formatMessage data now env)) st))"

text \<open>The decimal rendering of a number inside a template string.\<close>

function string_of_nat :: "nat \<Rightarrow> string" where
  "string_of_nat n =
     (if n < 10 then [char_of (48 + n)]
      else string_of_nat (n div 10) @ [char_of (48 + n mod 10)])"
  by pat_completeness auto
termination
  by (relation "measure id") auto

definition string_of_int :: "int \<Rightarrow> string" where
  "string_of_int i =
     (if i < 0 then ''-'' @ string_of_nat (nat (- i)) else string_of_nat (nat i))"

definition broadcastMemeHighlight ::
  "wsm \<Rightarrow> int \<Rightarrow> int \<Rightarrow> string \<Rightarrow> string option \<Rightarrow> bool \<times> wsm" where
  "broadcastMemeHighlight st memeId upvoteCount now env =
     broadcast st ''meme_highlight''
       [(''type'', JStr ''MEME_TRENDING''),
        (''data'', JObj
           [(''message'', JStr (''Meme upvotes now at '' @ string_of_int upvoteCount @ ''!'')),
            (''memeId'', JNum memeId),
            (''upvoteCount'', JNum upvoteCount),
            (''action'', JStr ''meme_trending'')])]
       now env"

section \<open>MemeService: the trending check\<close>

text \<open>
  The rows of the \<open>memes\<close> table, with the columns the check reads (\<open>id\<close> is a serial
  number, \<open>upvote_count\<close> an integer); \<open>updated_at\<close> is in milliseconds. The query is
  \<open>select id, upvote_count where updated_at >= since order by upvote_count desc limit 1\<close>;
  the order of the table is the order in which the database meets the rows, so it
  decides between rows with equal counts. A query that fails gives \<open>data: null\<close>, the
  table \<open>None\<close> here.
\<close>

record meme =
  meme_id :: int
  upvote_count :: int
  updated_at :: int

definition recentMemes_query :: "meme list \<Rightarrow> int \<Rightarrow> meme list" where
  "recentMemes_query table since =
     take 1 (sort_key (\<lambda>m. - upvote_count m) (filter (\<lambda>m. since \<le> updated_at m) table))"

definition checkAndBroadcastTrendingMeme ::
  "wsm \<Rightarrow> meme list option \<Rightarrow> int \<Rightarrow> int \<Rightarrow> string \<Rightarrow> string option \<Rightarrow> wsm" where
  "checkAndBroadcastTrendingMeme st db mid now_ms now env =
     (let tenMinutesAgo = now_ms - 10 * 60 * 1000
      in case db of
           None \<Rightarrow> st
         | Some table \<Rightarrow>
             (case recentMemes_query table tenMinutesAgo of
                [] \<Rightarrow> st
              | m # ms \<Rightarrow>
                  if meme_id m = mid
                  then (let upvoteCount = upvote_count m
                        in if upvoteCount > 0 \<and> upvoteCount mod 10 = 0
                           then snd (broadcastMemeHighlight st mid upvoteCount now env)
                           else st)
                  else st))"

section \<open>Events and reachable states\<close>

text \<open>
  What reaches the manager from outside: the server start, a new connection (socket.io
  creates the socket object and runs the \<open>connection\<close> handler), the client events of a
  connected socket, and the close of its transport. The events that read the clock carry
  the reading; a handler that reads the clock several times gets the same reading each
  time. The payloads of \<open>join_room\<close> and \<open>leave_room\<close> are objects with a string
  \<open>room\<close>, usernames are strings, and socket ids are those of socket.io: a new
  connection never has the id of a socket that is still connected.
\<close>

datatype event =
    Initialize
  | Connection string
  | Authenticate string "authData option" string
  | Ping string string int
  | JoinRoom string string
  | LeaveRoom string string
  | Disconnect string string string

definition connection_event :: "wsm \<Rightarrow> string \<Rightarrow> wsm" where
  "connection_event st s =
     handleConnection
       (st\<lparr>sockets := AList.update s \<lparr>username = None, connected = True\<rparr> (sockets st)\<rparr>) s"

fun fire :: "wsm \<Rightarrow> event \<Rightarrow> wsm option" where
  "fire st Initialize = Some (initialize st)"
| "fire st (Connection s) =
     (if isInitialized st \<and> io_sockets_get st s = None
      then Some (connection_event st s) else None)"
| "fire st (Authenticate s d now) =
     (if io_sockets_get st s \<noteq> None then Some (handleAuthentication st s d now) else None)"
| "fire st (Ping s now ms) =
     (if io_sockets_get st s \<noteq> None then Some (handlePing st s now ms) else None)"
| "fire st (JoinRoom s room) =
     (if io_sockets_get st s \<noteq> None then Some (handleJoinRoom st s room) else None)"
| "fire st (LeaveRoom s room) =
     (if io_sockets_get st s \<noteq> None then Some (handleLeaveRoom st s room) else None)"
| "fire st (Disconnect s reason now) =
     (if io_sockets_get st s \<noteq> None then Some (socket_onclose st s reason now) else None)"

inductive reachable :: "wsm \<Rightarrow> bool" where
  start: "reachable constructor"
| step: "reachable st \<Longrightarrow> fire st e = Some st' \<Longrightarrow> reachable st'"

section \<open>Notions used in the statements\<close>

text \<open>
  The action \<open>broadcastMemeHighlight\<close> sends once \<open>getIO\<close> succeeds, and the rows of the
  trailing ten-minute window that the trending check looks at.
\<close>

definition meme_highlight :: "int \<Rightarrow> int \<Rightarrow> string \<Rightarrow> string option \<Rightarrow> action" where
  "meme_highlight memeId upvoteCount now env =
     IoEmit ''meme_highlight''
       (formatMessage
          [(''type'', JStr ''MEME_TRENDING''),
           (''data'', JObj
              [(''message'', JStr (''Meme upvotes now at '' @ string_of_int upvoteCount @ ''!'')),
               (''memeId'', JNum memeId),
               (''upvoteCount'', JNum upvoteCount),
               (''action'', JStr ''meme_trending'')])]
          now env)"

definition recent :: "meme list \<Rightarrow> int \<Rightarrow> meme list" where
  "recent table now_ms = filter (\<lambda>m. now_ms - 600000 \<le> updated_at m) table"

text \<open>
  An identity \<open>u\<close> is bound to a connection \<open>s\<close> when either registry map says so:
  \<open>connectedUsers\<close> holds a session of \<open>u\<close> with that socket id, or \<open>userSockets\<close> maps
  the socket id to \<open>u\<close>.
\<close>

definition bound :: "wsm \<Rightarrow> string \<Rightarrow> string \<Rightarrow> bool" where
  "bound st u s \<longleftrightarrow>
     map_option socketId (getUserInfo st u) = Some s \<or> map_of (userSockets st) s = Some u"

text \<open>The ids of the connected sockets: the connections accepted and not yet closed.\<close>

definition activeConnections :: "wsm \<Rightarrow> string list" where
  "activeConnections st = map fst (filter (\<lambda>(s, sock). connected sock) (sockets st))"

subsection \<open>Invariants of the reachable states\<close>

definition us_cu_inv :: "wsm \<Rightarrow> bool" where
  "us_cu_inv st \<longleftrightarrow>
     (\<forall>s u. map_of (userSockets st) s = Some u \<longrightarrow>
        (\<exists>info. map_of (connectedUsers st) u = Some info \<and> socketId info = s))"

definition us_truthy :: "wsm \<Rightarrow> bool" where
  "us_truthy st \<longleftrightarrow> (\<forall>s. map_of (userSockets st) s \<noteq> Some [])"

definition rooms_inv :: "wsm \<Rightarrow> bool" where
  "rooms_inv st \<longleftrightarrow> (\<forall>r. (r, []) \<notin> set (rooms st))"

definition init_inv :: "wsm \<Rightarrow> bool" where
  "init_inv st \<longleftrightarrow> isInitialized st \<or> (connectedUsers st = [] \<and> sockets st = [])"

definition metrics_inv :: "wsm \<Rightarrow> bool" where
  "metrics_inv st \<longleftrightarrow>
     currentConnections (connectionMetrics st) = int (length (activeConnections st))
     \<and> totalConnections (connectionMetrics st) =
         currentConnections (connectionMetrics st) + totalDisconnections (connectionMetrics st)
     \<and> 0 \<le> totalDisconnections (connectionMetrics st)
     \<and> distinct (map fst (sockets st))"

subsection \<open>A small scenario\<close>

text \<open>
  A connection \<open>s1\<close> that authenticates as \<open>alice\<close> and joins the room \<open>lobby\<close>, then a
  second connection \<open>s2\<close>; and a \<open>memes\<close> table with two recently updated rows. The
  states after each step are used to instantiate the theorems below.
\<close>

definition alice_auth :: authData where
  "alice_auth = \<lparr>auth_username = Some ''alice'', auth_token = None, auth_userData = None\<rparr>"

definition empty_auth :: authData where
  "empty_auth = \<lparr>auth_username = Some [], auth_token = None, auth_userData = None\<rparr>"

definition st_connected :: wsm where
  "st_connected = connection_event (initialize constructor) ''s1''"

definition st_alice :: wsm where
  "st_alice = handleAuthentication st_connected ''s1'' (Some alice_auth) ''t1''"

definition st_lobby :: wsm where
  "st_lobby = handleJoinRoom st_alice ''s1'' ''lobby''"

definition st_two :: wsm where
  "st_two = connection_event st_lobby ''s2''"

definition memes_table :: "meme list" where
  "memes_table =
     [\<lparr>meme_id = 1, upvote_count = 20, updated_at = 1000000\<rparr>,
      \<lparr>meme_id = 2, upvote_count = 7, updated_at = 999000\<rparr>]"

section \<open>Association lists and rooms\<close>

lemma set_update_subset: "set (AList.update k v al) \<subseteq> insert (k, v) (set al)"
  by (induction al) auto

lemma set_add_member: "u \<in> set (set_add u us)"
  by (simp add: set_add_def)

lemma room_add_lookup:
  "map_of (room_add room u rs) room = map_option (set_add u) (map_of rs room)"
  by (simp add: room_add_def AList.update_conv' split: option.splits)

lemma join_rooms:
  "socket_username st s = Some u \<Longrightarrow> u \<noteq> [] \<Longrightarrow>
   rooms (handleJoinRoom st s room) =
     room_add room u
       (if map_of (rooms st) room = None then AList.update room [] (rooms st) else rooms st)"
  by (simp add: handleJoinRoom_def emit_def Let_def)

lemma join_sockets: "sockets (handleJoinRoom st s room) = sockets st"
  by (simp add: handleJoinRoom_def emit_def Let_def split: option.splits)

lemma join_members:
  "socket_username st s = Some u \<Longrightarrow> u \<noteq> [] \<Longrightarrow>
   getRoomUsers (handleJoinRoom st s room) room = set_add u (getRoomUsers st room)"
  by (simp add: join_rooms getRoomUsers_def room_add_lookup AList.update_conv'
      split: option.splits)

lemma join_idem:
  assumes "socket_username st s = Some u" "u \<noteq> []"
  shows "rooms (handleJoinRoom (handleJoinRoom st s room) s room) =
         rooms (handleJoinRoom st s room)"
proof -
  let ?st1 = "handleJoinRoom st s room"
  have su: "socket_username ?st1 s = Some u"
    using assms by (simp add: socket_username_def join_sockets)
  obtain us where us: "map_of (rooms ?st1) room = Some us" "u \<in> set us"
    using join_members[OF assms, of room] set_add_member[of u "getRoomUsers st room"]
    by (auto simp: getRoomUsers_def split: option.splits)
  have "rooms (handleJoinRoom ?st1 s room) = room_add room u (rooms ?st1)"
    using us by (simp add: join_rooms[OF su assms(2)])
  also have "\<dots> = rooms ?st1"
    using us by (simp add: room_add_def set_add_def AList.update_triv)
  finally show ?thesis .
qed

lemma room_remove_lookup:
  "u \<notin> set (case map_of (room_remove room u rs) room of None \<Rightarrow> [] | Some us \<Rightarrow> us)"
  by (auto simp: room_remove_def set_delete_def Let_def AList.update_conv' AList.delete_conv'
      split: option.splits)

lemma leave_rooms:
  "socket_username st s = Some u \<Longrightarrow> u \<noteq> [] \<Longrightarrow>
   rooms (handleLeaveRoom st s room) = room_remove room u (rooms st)"
  by (simp add: handleLeaveRoom_def emit_def Let_def)

lemma leave_members:
  "socket_username st s = Some u \<Longrightarrow> u \<noteq> [] \<Longrightarrow>
   u \<notin> set (getRoomUsers (handleLeaveRoom st s room) room)"
  using room_remove_lookup[of u room "rooms st"] by (simp add: leave_rooms getRoomUsers_def)

section \<open>What each handler does to each field\<close>

lemma hd_sockets: "sockets (handleDisconnection st s r n) = sockets st"
  by (simp add: handleDisconnection_def emit_def broadcastUserStatus_def Let_def split: option.splits prod.splits)

lemma hd_init: "isInitialized (handleDisconnection st s r n) = isInitialized st"
  by (simp add: handleDisconnection_def emit_def broadcastUserStatus_def Let_def split: option.splits prod.splits)

lemma hd_metrics: "connectionMetrics (handleDisconnection st s r n) =
   (connectionMetrics st)\<lparr>currentConnections := currentConnections (connectionMetrics st) - 1,
       totalDisconnections := totalDisconnections (connectionMetrics st) + 1\<rparr>"
  by (simp add: handleDisconnection_def emit_def broadcastUserStatus_def Let_def split: option.splits prod.splits)

lemma hd_userSockets: "userSockets (handleDisconnection st s r n) =
   (if truthy (map_of (userSockets st) s) then AList.delete s (userSockets st) else userSockets st)"
  by (simp add: handleDisconnection_def emit_def broadcastUserStatus_def Let_def split: option.splits prod.splits)

lemma hd_connectedUsers: "connectedUsers (handleDisconnection st s r n) =
   (case map_of (userSockets st) s of None \<Rightarrow> connectedUsers st
    | Some u \<Rightarrow> if u = [] then connectedUsers st else AList.delete u (connectedUsers st))"
  by (simp add: handleDisconnection_def emit_def broadcastUserStatus_def Let_def split: option.splits prod.splits)

lemma hd_rooms: "rooms (handleDisconnection st s r n) =
   (case map_of (userSockets st) s of None \<Rightarrow> rooms st
    | Some u \<Rightarrow> if u = [] then rooms st else fst (removeFromAllRooms s u (rooms st)))"
  by (simp add: handleDisconnection_def emit_def broadcastUserStatus_def Let_def split: option.splits prod.splits)

lemma hd_outbox: "outbox (handleDisconnection st s r n) =
   (case map_of (userSockets st) s of None \<Rightarrow> outbox st
    | Some u \<Rightarrow> if u = [] then outbox st else outbox st @ snd (removeFromAllRooms s u (rooms st)) @
       [IoEmit ''user_status'' [(''username'', JStr u), (''status'', JStr ''offline''), (''timestamp'', JStr n)],
        ManagerEmit ''user_disconnected'' [(''username'', JStr u), (''reason'', JStr r), (''socket'', JStr s)]])"
  by (simp add: handleDisconnection_def emit_def broadcastUserStatus_def Let_def split: option.splits prod.splits)

lemmas hd_simps = hd_sockets hd_init hd_metrics hd_userSockets hd_connectedUsers hd_rooms hd_outbox

lemma rfar_rooms: "fst (removeFromAllRooms s u rs) =
   List.map_filter (\<lambda>(room, users). if u \<in> set users \<and> set_delete u users = [] then None
                                  else Some (room, set_delete u users)) rs"
  by (induction s u rs rule: removeFromAllRooms.induct)
     (simp_all add: List.map_filter_simps set_delete_def Let_def split_beta)

lemma rfar_acts: "snd (removeFromAllRooms s u rs) =
   map (\<lambda>(room, users). SocketToEmit s room ''user_left_room'' [(''room'', JStr room), (''username'', JStr u)])
       (filter (\<lambda>(room, users). u \<in> set users) rs)"
  by (induction s u rs rule: removeFromAllRooms.induct) (simp_all add: Let_def split_beta)

lemma rfar_no_member: "(room, users) \<in> set (fst (removeFromAllRooms s u rs)) \<Longrightarrow> u \<notin> set users"
  by (induction s u rs rule: removeFromAllRooms.induct)
     (auto simp: Let_def set_delete_def split_beta split: if_splits)

lemma so_connected:
  "io_sockets_get st s = Some sock \<Longrightarrow>
   socket_onclose st s r n = handleDisconnection (st\<lparr>sockets := AList.update s (sock\<lparr>connected := False\<rparr>) (sockets st)\<rparr>) s r n"
  by (auto simp: socket_onclose_def io_sockets_get_def split: option.splits if_splits)

lemma so_not_connected: "io_sockets_get st s = None \<Longrightarrow> socket_onclose st s r n = st"
  by (auto simp: socket_onclose_def io_sockets_get_def split: option.splits if_splits)

lemma sd_connected:
  "io_sockets_get st s = Some sock \<Longrightarrow>
   socket_disconnect st s n = handleDisconnection ((emit (SocketDisconnect s) st)\<lparr>sockets := AList.update s (sock\<lparr>connected := False\<rparr>) (sockets st)\<rparr>) s ''server namespace disconnect'' n"
  by (auto simp: socket_disconnect_def socket_onclose_def emit_def io_sockets_get_def split: option.splits if_splits)

lemma update_keys_present:
  "map_of al k = Some v \<Longrightarrow> map fst (AList.update k v' al) = map fst al"
  by (auto simp: AList.update_keys dest!: map_of_SomeD intro: rev_image_eqI)

lemma sd_not_connected: "io_sockets_get st s = None \<Longrightarrow> socket_disconnect st s n = st"
  by (simp add: socket_disconnect_def)

lemma ru_unfold:
  "removeUserFromPreviousSocket st u n =
    (case map_of (connectedUsers st) u of None \<Rightarrow> st
     | Some prev \<Rightarrow> (socket_disconnect st (socketId prev) n)
          \<lparr>userSockets := AList.delete (socketId prev) (userSockets (socket_disconnect st (socketId prev) n))\<rparr>)"
  by (simp add: removeUserFromPreviousSocket_def Let_def sd_not_connected split: option.splits)

section \<open>The two registry maps agree\<close>

text \<open>
  Every entry of \<open>userSockets\<close> points to an identity whose session is on that socket.
  Each handler keeps this, so it holds in every reachable state.
\<close>

lemma inv_hd:
  assumes "us_cu_inv st"
  shows "us_cu_inv (handleDisconnection st s r n)"
proof (cases "map_of (userSockets st) s")
  case None
  then show ?thesis using assms by (simp add: us_cu_inv_def hd_simps)
next
  case (Some u)
  show ?thesis
  proof (cases "u = []")
    case True
    then show ?thesis using assms Some by (simp add: us_cu_inv_def hd_simps)
  next
    case False
    show ?thesis
      unfolding us_cu_inv_def
    proof (intro allI impI)
      fix s' u'
      assume h: "map_of (userSockets (handleDisconnection st s r n)) s' = Some u'"
      then have ne: "s' \<noteq> s" and old: "map_of (userSockets st) s' = Some u'"
        using Some False by (auto simp: hd_simps AList.delete_conv' split: if_splits)
      from assms old obtain info where info: "map_of (connectedUsers st) u' = Some info" "socketId info = s'"
        by (auto simp: us_cu_inv_def)
      from assms Some obtain info0 where info0: "map_of (connectedUsers st) u = Some info0" "socketId info0 = s"
        by (auto simp: us_cu_inv_def)
      have "u' \<noteq> u" using info info0 ne by auto
      then show "\<exists>info. map_of (connectedUsers (handleDisconnection st s r n)) u' = Some info \<and> socketId info = s'"
        using info Some False by (simp add: hd_simps AList.delete_conv')
    qed
  qed
qed

lemma inv_so: "us_cu_inv st \<Longrightarrow> us_cu_inv (socket_onclose st s r n)"
proof (cases "io_sockets_get st s")
  case None
  assume "us_cu_inv st"
  then show ?thesis using None by (simp add: so_not_connected)
next
  case (Some sock)
  assume a: "us_cu_inv st"
  have "us_cu_inv (st\<lparr>sockets := AList.update s (sock\<lparr>connected := False\<rparr>) (sockets st)\<rparr>)"
    using a by (simp add: us_cu_inv_def)
  then show ?thesis by (simp add: so_connected[OF Some] inv_hd)
qed

lemma inv_sd: "us_cu_inv st \<Longrightarrow> us_cu_inv (socket_disconnect st s n)"
proof (cases "io_sockets_get st s")
  case None
  assume "us_cu_inv st"
  then show ?thesis using None by (simp add: sd_not_connected)
next
  case (Some sock)
  assume a: "us_cu_inv st"
  have "us_cu_inv ((emit (SocketDisconnect s) st)\<lparr>sockets := AList.update s (sock\<lparr>connected := False\<rparr>) (sockets st)\<rparr>)"
    using a by (simp add: us_cu_inv_def emit_def)
  then show ?thesis by (simp add: sd_connected[OF Some] inv_hd)
qed

lemma sd_userSockets_sub:
  "map_of (userSockets (socket_disconnect st p n)) s = Some u \<Longrightarrow> map_of (userSockets st) s = Some u"
  by (cases "io_sockets_get st p")
     (auto simp: sd_not_connected sd_connected hd_simps emit_def AList.delete_conv' split: if_splits)

lemma inv_ru:
  assumes "us_cu_inv st"
  shows "us_cu_inv (removeUserFromPreviousSocket st u n)"
    and "map_of (userSockets (removeUserFromPreviousSocket st u n)) s \<noteq> Some u"
proof -
  show "us_cu_inv (removeUserFromPreviousSocket st u n)"
  proof (cases "map_of (connectedUsers st) u")
    case None
    then show ?thesis using assms by (simp add: ru_unfold)
  next
    case (Some prev)
    have "us_cu_inv (socket_disconnect st (socketId prev) n)"
      using assms by (rule inv_sd)
    then show ?thesis
      using Some by (auto simp: ru_unfold us_cu_inv_def AList.delete_conv' split: if_splits)
  qed
  show "map_of (userSockets (removeUserFromPreviousSocket st u n)) s \<noteq> Some u"
  proof (cases "map_of (connectedUsers st) u")
    case None
    then show ?thesis using assms by (fastforce simp: ru_unfold us_cu_inv_def)
  next
    case (Some prev)
    show ?thesis
    proof
      assume h: "map_of (userSockets (removeUserFromPreviousSocket st u n)) s = Some u"
      then have ne: "s \<noteq> socketId prev"
        and h': "map_of (userSockets (socket_disconnect st (socketId prev) n)) s = Some u"
        using Some by (auto simp: ru_unfold AList.delete_conv' split: if_splits)
      from h' have "map_of (userSockets st) s = Some u" by (rule sd_userSockets_sub)
      with assms Some have "socketId prev = s" by (fastforce simp: us_cu_inv_def)
      with ne show False by simp
    qed
  qed
qed

lemma auth_fields:
  assumes "auth_username d = Some u" "u \<noteq> []"
  shows "connectedUsers (handleAuthentication st s (Some d) now) =
           AList.update u \<lparr>socketId = s, userData = AList.update ''lastSeen'' (JStr now)
              (AList.update ''connectedAt'' (JStr now) (case auth_userData d of None \<Rightarrow> [] | Some x \<Rightarrow> x))\<rparr>
             (connectedUsers (removeUserFromPreviousSocket st u now))"
    and "userSockets (handleAuthentication st s (Some d) now) =
           AList.update s u (userSockets (removeUserFromPreviousSocket st u now))"
    and "sockets (handleAuthentication st s (Some d) now) =
           set_socket_username s u (sockets (removeUserFromPreviousSocket st u now))"
    and "rooms (handleAuthentication st s (Some d) now) = rooms (removeUserFromPreviousSocket st u now)"
    and "connectionMetrics (handleAuthentication st s (Some d) now) =
           connectionMetrics (removeUserFromPreviousSocket st u now)"
    and "isInitialized (handleAuthentication st s (Some d) now) =
           isInitialized (removeUserFromPreviousSocket st u now)"
  using assms by (simp_all add: handleAuthentication_def emit_def broadcastUserStatus_def Let_def)

lemma inv_auth:
  assumes "us_cu_inv st"
  shows "us_cu_inv (handleAuthentication st s d now)"
proof (cases d)
  case None
  then show ?thesis using assms by (simp add: handleAuthentication_def emit_def us_cu_inv_def)
next
  case (Some dd)
  show ?thesis
  proof (cases "truthy (auth_username dd)")
    case False
    then show ?thesis using assms Some by (simp add: handleAuthentication_def emit_def us_cu_inv_def)
  next
    case True
    then obtain u where u: "auth_username dd = Some u" "u \<noteq> []"
      by (cases "auth_username dd") auto
    note f = auth_fields[OF u, of st s now]
    note r = inv_ru[OF assms, of u now]
    show ?thesis
      unfolding Some us_cu_inv_def
      using r by (auto simp: f AList.update_conv' us_cu_inv_def split: if_splits)
  qed
qed

lemma us_cu_invD:
  "us_cu_inv st \<Longrightarrow> map_of (userSockets st) s = Some u \<Longrightarrow>
   \<exists>info. map_of (connectedUsers st) u = Some info \<and> socketId info = s"
  by (simp add: us_cu_inv_def)

lemma ping_fields:
  "userSockets (handlePing st s now ms) = userSockets st"
  "map_option socketId (map_of (connectedUsers (handlePing st s now ms)) u) =
   map_option socketId (map_of (connectedUsers st) u)"
  by (auto simp: handlePing_def emit_def Let_def AList.update_conv' split: option.splits)

lemma inv_ping:
  assumes "us_cu_inv st"
  shows "us_cu_inv (handlePing st s now ms)"
  unfolding us_cu_inv_def
proof (intro allI impI)
  fix s' u
  assume "map_of (userSockets (handlePing st s now ms)) s' = Some u"
  then have "map_of (userSockets st) s' = Some u" by (simp add: ping_fields)
  then have "map_option socketId (map_of (connectedUsers st) u) = Some s'"
    using us_cu_invD[OF assms] by fastforce
  then have "map_option socketId (map_of (connectedUsers (handlePing st s now ms)) u) = Some s'"
    by (simp add: ping_fields)
  then show "\<exists>info. map_of (connectedUsers (handlePing st s now ms)) u = Some info \<and> socketId info = s'"
    by auto
qed

lemma inv_join: "us_cu_inv st \<Longrightarrow> us_cu_inv (handleJoinRoom st s room)"
  by (simp add: us_cu_inv_def handleJoinRoom_def emit_def Let_def split: option.splits)

lemma inv_leave: "us_cu_inv st \<Longrightarrow> us_cu_inv (handleLeaveRoom st s room)"
  by (simp add: us_cu_inv_def handleLeaveRoom_def emit_def Let_def split: option.splits)

lemma inv_conn: "us_cu_inv st \<Longrightarrow> us_cu_inv (connection_event st s)"
  by (simp add: us_cu_inv_def connection_event_def handleConnection_def emit_def Let_def)

lemma inv_initialize: "us_cu_inv st \<Longrightarrow> us_cu_inv (initialize st)"
  by (simp add: us_cu_inv_def initialize_def)

lemma inv_fire: "us_cu_inv st \<Longrightarrow> fire st e = Some st' \<Longrightarrow> us_cu_inv st'"
  by (cases e) (auto simp: inv_auth inv_ping inv_join inv_leave inv_conn inv_initialize inv_so split: if_splits)

lemma reachable_us_cu_inv: "reachable st \<Longrightarrow> us_cu_inv st"
proof (induction rule: reachable.induct)
  case start
  show ?case by (simp add: us_cu_inv_def constructor_def)
next
  case (step st e st')
  then show ?case by (auto intro: inv_fire)
qed

section \<open>No room is left empty\<close>

lemma rfar_subset:
  "(r, []) \<in> set (fst (removeFromAllRooms s u rs)) \<Longrightarrow> (r, []) \<in> set rs"
  by (induction s u rs rule: removeFromAllRooms.induct)
     (auto simp: Let_def split_beta split: if_splits)

lemma rooms_inv_hd: "rooms_inv st \<Longrightarrow> rooms_inv (handleDisconnection st s r n)"
  by (auto simp: rooms_inv_def hd_rooms split: option.splits if_splits dest: rfar_subset)

lemma rooms_inv_so: "rooms_inv st \<Longrightarrow> rooms_inv (socket_onclose st s r n)"
proof (cases "io_sockets_get st s")
  case None
  assume "rooms_inv st"
  then show ?thesis using None by (simp add: so_not_connected)
next
  case (Some sock)
  assume a: "rooms_inv st"
  have "rooms_inv (st\<lparr>sockets := AList.update s (sock\<lparr>connected := False\<rparr>) (sockets st)\<rparr>)"
    using a by (simp add: rooms_inv_def)
  then show ?thesis by (simp add: so_connected[OF Some] rooms_inv_hd)
qed

lemma rooms_inv_sd: "rooms_inv st \<Longrightarrow> rooms_inv (socket_disconnect st s n)"
proof (cases "io_sockets_get st s")
  case None
  assume "rooms_inv st"
  then show ?thesis using None by (simp add: sd_not_connected)
next
  case (Some sock)
  assume a: "rooms_inv st"
  have "rooms_inv ((emit (SocketDisconnect s) st)\<lparr>sockets := AList.update s (sock\<lparr>connected := False\<rparr>) (sockets st)\<rparr>)"
    using a by (simp add: rooms_inv_def emit_def)
  then show ?thesis by (simp add: sd_connected[OF Some] rooms_inv_hd)
qed

lemma rooms_inv_ru:
  assumes "rooms_inv st"
  shows "rooms_inv (removeUserFromPreviousSocket st u n)"
proof (cases "map_of (connectedUsers st) u")
  case None
  then show ?thesis using assms by (simp add: ru_unfold)
next
  case (Some prev)
  have "rooms_inv (socket_disconnect st (socketId prev) n)"
    using assms by (rule rooms_inv_sd)
  then show ?thesis using Some by (simp add: ru_unfold rooms_inv_def)
qed

lemma rooms_inv_auth: "rooms_inv st \<Longrightarrow> rooms_inv (handleAuthentication st s d now)"
proof (cases d)
  case None
  assume "rooms_inv st"
  then show ?thesis using None by (simp add: handleAuthentication_def emit_def rooms_inv_def)
next
  case (Some dd)
  assume a: "rooms_inv st"
  show ?thesis
  proof (cases "truthy (auth_username dd)")
    case False
    then show ?thesis using a Some by (simp add: handleAuthentication_def emit_def rooms_inv_def)
  next
    case True
    then obtain u where u: "auth_username dd = Some u" "u \<noteq> []"
      by (cases "auth_username dd") auto
    show ?thesis
      using rooms_inv_ru[OF a, of u now]
      by (simp add: Some rooms_inv_def auth_fields(4)[OF u])
  qed
qed

lemma join_rooms_update:
  "socket_username st s = Some u \<Longrightarrow> u \<noteq> [] \<Longrightarrow>
   rooms (handleJoinRoom st s room) = AList.update room (set_add u (getRoomUsers st room)) (rooms st)"
  by (auto simp: join_rooms room_add_def getRoomUsers_def AList.update_conv' split: option.splits)

lemma update_no_empty:
  assumes "(r, []) \<in> set (AList.update k v al)" and "v \<noteq> []"
  shows "(r, []) \<in> set al"
proof -
  have "(r, []) \<in> insert (k, v) (set al)"
    using assms(1) set_update_subset[of k v al] by (rule subsetD[rotated])
  then show ?thesis using assms(2) by auto
qed

lemma set_add_nonempty: "set_add u us \<noteq> []"
  by (auto simp: set_add_def)

lemma rooms_inv_join: "rooms_inv st \<Longrightarrow> rooms_inv (handleJoinRoom st s room)"
proof (cases "truthy (socket_username st s)")
  case False
  assume "rooms_inv st"
  then show ?thesis using False
    by (cases "socket_username st s") (auto simp: handleJoinRoom_def emit_def rooms_inv_def)
next
  case True
  assume a: "rooms_inv st"
  from True obtain u where u: "socket_username st s = Some u" "u \<noteq> []"
    by (cases "socket_username st s") auto
  show ?thesis
    unfolding rooms_inv_def
  proof
    fix r
    show "(r, []) \<notin> set (rooms (handleJoinRoom st s room))"
    proof
      assume "(r, []) \<in> set (rooms (handleJoinRoom st s room))"
      then have "(r, []) \<in> set (AList.update room (set_add u (getRoomUsers st room)) (rooms st))"
        by (simp add: join_rooms_update[OF u])
      then have "(r, []) \<in> set (rooms st)"
        using set_add_nonempty by (rule update_no_empty)
      then show False using a by (simp add: rooms_inv_def)
    qed
  qed
qed

lemma room_remove_subset:
  assumes "(r, []) \<in> set (room_remove room u rs)"
  shows "(r, []) \<in> set rs"
proof (cases "map_of rs room")
  case None
  then show ?thesis using assms by (simp add: room_remove_def)
next
  case (Some users)
  show ?thesis
  proof (cases "set_delete u users = []")
    case True
    then show ?thesis using assms Some by (auto simp: room_remove_def AList.delete_eq)
  next
    case False
    then have "(r, []) \<in> set (AList.update room (set_delete u users) rs)"
      using assms Some by (simp add: room_remove_def)
    then show ?thesis using False by (rule update_no_empty)
  qed
qed

lemma rooms_inv_leave: "rooms_inv st \<Longrightarrow> rooms_inv (handleLeaveRoom st s room)"
proof (cases "truthy (socket_username st s)")
  case False
  assume "rooms_inv st"
  then show ?thesis using False
    by (cases "socket_username st s") (auto simp: handleLeaveRoom_def emit_def rooms_inv_def)
next
  case True
  assume a: "rooms_inv st"
  from True obtain u where u: "socket_username st s = Some u" "u \<noteq> []"
    by (cases "socket_username st s") auto
  show ?thesis
    using a by (auto simp: rooms_inv_def leave_rooms[OF u] dest: room_remove_subset)
qed

lemma rooms_inv_fire: "rooms_inv st \<Longrightarrow> fire st e = Some st' \<Longrightarrow> rooms_inv st'"
proof (cases e)
  case Initialize
  assume "rooms_inv st" "fire st e = Some st'"
  then show ?thesis using Initialize by (auto simp: rooms_inv_def initialize_def split: if_splits)
next
  case (Connection s)
  assume "rooms_inv st" "fire st e = Some st'"
  then show ?thesis using Connection
    by (auto simp: rooms_inv_def connection_event_def handleConnection_def emit_def Let_def split: if_splits)
next
  case (Authenticate s d now)
  assume "rooms_inv st" "fire st e = Some st'"
  then show ?thesis using Authenticate by (auto simp: rooms_inv_auth split: if_splits)
next
  case (Ping s now ms)
  assume "rooms_inv st" "fire st e = Some st'"
  then show ?thesis using Ping
    by (auto simp: rooms_inv_def handlePing_def emit_def Let_def split: if_splits option.splits)
next
  case (JoinRoom s room)
  assume "rooms_inv st" "fire st e = Some st'"
  then show ?thesis using JoinRoom by (auto simp: rooms_inv_join split: if_splits)
next
  case (LeaveRoom s room)
  assume "rooms_inv st" "fire st e = Some st'"
  then show ?thesis using LeaveRoom by (auto simp: rooms_inv_leave split: if_splits)
next
  case (Disconnect s reason now)
  assume "rooms_inv st" "fire st e = Some st'"
  then show ?thesis using Disconnect by (auto simp: rooms_inv_so split: if_splits)
qed

lemma reachable_rooms_inv: "reachable st \<Longrightarrow> rooms_inv st"
proof (induction rule: reachable.induct)
  case start
  show ?case by (simp add: rooms_inv_def constructor_def)
next
  case (step st e st')
  then show ?case by (auto intro: rooms_inv_fire)
qed

section \<open>Usernames in the registry are not empty\<close>

lemma so_userSockets_sub:
  "map_of (userSockets (socket_onclose st p r n)) s = Some u \<Longrightarrow> map_of (userSockets st) s = Some u"
  by (cases "io_sockets_get st p")
     (auto simp: so_not_connected so_connected hd_simps AList.delete_conv' split: if_splits)

lemma ru_userSockets_sub:
  "map_of (userSockets (removeUserFromPreviousSocket st v n)) s = Some u \<Longrightarrow>
   map_of (userSockets st) s = Some u"
  by (cases "map_of (connectedUsers st) v")
     (auto simp: ru_unfold AList.delete_conv' split: if_splits dest: sd_userSockets_sub)

lemma join_fields:
  "connectedUsers (handleJoinRoom st s room) = connectedUsers st"
  "userSockets (handleJoinRoom st s room) = userSockets st"
  "connectionMetrics (handleJoinRoom st s room) = connectionMetrics st"
  "isInitialized (handleJoinRoom st s room) = isInitialized st"
  by (simp_all add: handleJoinRoom_def emit_def Let_def split: option.splits)

lemma leave_fields:
  "connectedUsers (handleLeaveRoom st s room) = connectedUsers st"
  "userSockets (handleLeaveRoom st s room) = userSockets st"
  "connectionMetrics (handleLeaveRoom st s room) = connectionMetrics st"
  "isInitialized (handleLeaveRoom st s room) = isInitialized st"
  "sockets (handleLeaveRoom st s room) = sockets st"
  by (simp_all add: handleLeaveRoom_def emit_def Let_def split: option.splits)

lemma ping_fields2:
  "rooms (handlePing st s now ms) = rooms st"
  "connectionMetrics (handlePing st s now ms) = connectionMetrics st"
  "isInitialized (handlePing st s now ms) = isInitialized st"
  "sockets (handlePing st s now ms) = sockets st"
  by (simp_all add: handlePing_def emit_def Let_def split: option.splits)

lemma conn_fields:
  "connectedUsers (connection_event st s) = connectedUsers st"
  "userSockets (connection_event st s) = userSockets st"
  "rooms (connection_event st s) = rooms st"
  "isInitialized (connection_event st s) = isInitialized st"
  "sockets (connection_event st s) = AList.update s \<lparr>username = None, connected = True\<rparr> (sockets st)"
  "connectionMetrics (connection_event st s) =
     (connectionMetrics st)\<lparr>totalConnections := totalConnections (connectionMetrics st) + 1,
        currentConnections := currentConnections (connectionMetrics st) + 1\<rparr>"
  by (simp_all add: connection_event_def handleConnection_def emit_def Let_def)

lemma init_fields:
  "connectedUsers (initialize st) = connectedUsers st"
  "userSockets (initialize st) = userSockets st"
  "rooms (initialize st) = rooms st"
  "sockets (initialize st) = sockets st"
  "connectionMetrics (initialize st) = connectionMetrics st"
  "isInitialized (initialize st)"
  by (simp_all add: initialize_def)

lemma auth_rejected:
  "\<not> truthy (case d of None \<Rightarrow> None | Some dd \<Rightarrow> auth_username dd) \<Longrightarrow>
   handleAuthentication st s d now =
     emit (SocketEmit s ''authentication_error''
        [(''error'', JStr (case d of None \<Rightarrow> ''Authentication failed'' | Some dd \<Rightarrow> ''Username is required''))]) st"
  by (cases d) (simp_all add: handleAuthentication_def)

lemma us_truthy_fire: "us_truthy st \<Longrightarrow> fire st e = Some st' \<Longrightarrow> us_truthy st'"
proof (cases e)
  case Initialize
  assume "us_truthy st" "fire st e = Some st'"
  then show ?thesis using Initialize by (auto simp: us_truthy_def init_fields)
next
  case (Connection s)
  assume "us_truthy st" "fire st e = Some st'"
  then show ?thesis using Connection by (auto simp: us_truthy_def conn_fields split: if_splits)
next
  case (Authenticate s d now)
  assume a: "us_truthy st" "fire st e = Some st'"
  then have st': "st' = handleAuthentication st s d now"
    using Authenticate by (auto split: if_splits)
  show ?thesis
  proof (cases "truthy (case d of None \<Rightarrow> None | Some dd \<Rightarrow> auth_username dd)")
    case False
    then show ?thesis using a(1) by (simp add: st' auth_rejected us_truthy_def emit_def)
  next
    case True
    then obtain dd u where u: "d = Some dd" "auth_username dd = Some u" "u \<noteq> []"
      by (cases d; cases "auth_username (the d)") auto
    show ?thesis
      unfolding us_truthy_def st' u(1)
    proof
      fix s'
      show "map_of (userSockets (handleAuthentication st s (Some dd) now)) s' \<noteq> Some []"
        using a(1) u(3) ru_userSockets_sub[of st u now s' "[]"]
        by (auto simp: auth_fields(2)[OF u(2,3)] AList.update_conv' us_truthy_def)
    qed
  qed
next
  case (Ping s now ms)
  assume "us_truthy st" "fire st e = Some st'"
  then show ?thesis using Ping by (auto simp: us_truthy_def ping_fields split: if_splits)
next
  case (JoinRoom s room)
  assume "us_truthy st" "fire st e = Some st'"
  then show ?thesis using JoinRoom by (auto simp: us_truthy_def join_fields split: if_splits)
next
  case (LeaveRoom s room)
  assume "us_truthy st" "fire st e = Some st'"
  then show ?thesis using LeaveRoom by (auto simp: us_truthy_def leave_fields split: if_splits)
next
  case (Disconnect s reason now)
  assume a: "us_truthy st" "fire st e = Some st'"
  then have st': "st' = socket_onclose st s reason now"
    using Disconnect by (auto split: if_splits)
  show ?thesis
    unfolding us_truthy_def st'
  proof
    fix s'
    show "map_of (userSockets (socket_onclose st s reason now)) s' \<noteq> Some []"
      using a(1) so_userSockets_sub[of st s reason now s' "[]"] by (auto simp: us_truthy_def)
  qed
qed

lemma reachable_us_truthy: "reachable st \<Longrightarrow> us_truthy st"
proof (induction rule: reachable.induct)
  case start
  show ?case by (simp add: us_truthy_def constructor_def)
next
  case (step st e st')
  then show ?case by (auto intro: us_truthy_fire)
qed

section \<open>Users and sockets exist only after the server start\<close>

lemma so_init: "isInitialized (socket_onclose st s r n) = isInitialized st"
  by (cases "io_sockets_get st s") (simp_all add: so_not_connected so_connected hd_init)

lemma sd_init: "isInitialized (socket_disconnect st s n) = isInitialized st"
  by (cases "io_sockets_get st s") (simp_all add: sd_not_connected sd_connected hd_init emit_def)

lemma ru_init: "isInitialized (removeUserFromPreviousSocket st u n) = isInitialized st"
  by (simp add: ru_unfold sd_init split: option.splits)

lemma auth_init: "isInitialized (handleAuthentication st s d now) = isInitialized st"
proof (cases "truthy (case d of None \<Rightarrow> None | Some dd \<Rightarrow> auth_username dd)")
  case False
  then show ?thesis by (simp add: auth_rejected emit_def)
next
  case True
  then obtain dd u where u: "d = Some dd" "auth_username dd = Some u" "u \<noteq> []"
    by (cases d; cases "auth_username (the d)") auto
  show ?thesis by (simp add: u(1) auth_fields(6)[OF u(2,3)] ru_init)
qed

lemma io_get_empty: "sockets st = [] \<Longrightarrow> io_sockets_get st s = None"
  by (simp add: io_sockets_get_def)

lemma init_inv_fire: "init_inv st \<Longrightarrow> fire st e = Some st' \<Longrightarrow> init_inv st'"
  by (cases e)
     (auto simp: init_inv_def init_fields conn_fields auth_init ping_fields2 join_fields leave_fields so_init
        io_get_empty split: if_splits)

lemma reachable_init_inv: "reachable st \<Longrightarrow> init_inv st"
proof (induction rule: reachable.induct)
  case start
  show ?case by (simp add: init_inv_def constructor_def)
next
  case (step st e st')
  then show ?case by (auto intro: init_inv_fire)
qed

section \<open>The counters follow the connected sockets\<close>

lemma cnt_off:
  "map_of al s = Some sock \<Longrightarrow> connected sock \<Longrightarrow> \<not> connected sock' \<Longrightarrow>
   Suc (length (filter (\<lambda>(s, sock). connected sock) (AList.update s sock' al))) =
   length (filter (\<lambda>(s, sock). connected sock) al)"
  by (induction al) (auto split: if_splits)

lemma cnt_on:
  "(case map_of al s of None \<Rightarrow> True | Some sock \<Rightarrow> \<not> connected sock) \<Longrightarrow> connected sock' \<Longrightarrow>
   length (filter (\<lambda>(s, sock). connected sock) (AList.update s sock' al)) =
   Suc (length (filter (\<lambda>(s, sock). connected sock) al))"
  by (induction al) (auto split: if_splits)

lemma cnt_same:
  "map_of al s = Some sock \<Longrightarrow> connected sock' = connected sock \<Longrightarrow>
   length (filter (\<lambda>(s, sock). connected sock) (AList.update s sock' al)) =
   length (filter (\<lambda>(s, sock). connected sock) al)"
  by (induction al) (auto split: if_splits)

lemma metrics_inv_so:
  assumes "metrics_inv st" "io_sockets_get st s = Some sock"
  shows "metrics_inv (socket_onclose st s r n)"
proof -
  have m: "map_of (sockets st) s = Some sock" "connected sock"
    using assms(2) by (auto simp: io_sockets_get_def split: option.splits if_splits)
  have c: "Suc (length (filter (\<lambda>(s, sock). connected sock)
              (AList.update s (sock\<lparr>connected := False\<rparr>) (sockets st)))) =
           length (filter (\<lambda>(s, sock). connected sock) (sockets st))"
    using m by (intro cnt_off) auto
  show ?thesis
    using assms(1) c
    by (simp add: metrics_inv_def activeConnections_def so_connected[OF assms(2)] hd_simps
        AList.distinct_update)
qed

lemma metrics_inv_sd:
  assumes "metrics_inv st"
  shows "metrics_inv (socket_disconnect st s n)"
proof (cases "io_sockets_get st s")
  case None
  then show ?thesis using assms by (simp add: sd_not_connected)
next
  case (Some sock)
  have m: "map_of (sockets st) s = Some sock" "connected sock"
    using Some by (auto simp: io_sockets_get_def split: option.splits if_splits)
  have c: "Suc (length (filter (\<lambda>(s, sock). connected sock)
              (AList.update s (sock\<lparr>connected := False\<rparr>) (sockets st)))) =
           length (filter (\<lambda>(s, sock). connected sock) (sockets st))"
    using m by (intro cnt_off) auto
  show ?thesis
    using assms c
    by (simp add: metrics_inv_def activeConnections_def sd_connected[OF Some] hd_simps emit_def
        AList.distinct_update)
qed

lemma metrics_inv_ru:
  assumes "metrics_inv st"
  shows "metrics_inv (removeUserFromPreviousSocket st u n)"
proof (cases "map_of (connectedUsers st) u")
  case None
  then show ?thesis using assms by (simp add: ru_unfold)
next
  case (Some prev)
  have "metrics_inv (socket_disconnect st (socketId prev) n)"
    using assms by (rule metrics_inv_sd)
  then show ?thesis using Some by (simp add: ru_unfold metrics_inv_def activeConnections_def)
qed

lemma set_socket_username_count:
  "length (filter (\<lambda>(s, sock). connected sock) (set_socket_username s u socks)) =
   length (filter (\<lambda>(s, sock). connected sock) socks)"
  by (cases "map_of socks s") (simp_all add: set_socket_username_def cnt_same)

lemma set_socket_username_distinct:
  "distinct (map fst socks) \<Longrightarrow> distinct (map fst (set_socket_username s u socks))"
  by (cases "map_of socks s") (simp_all add: set_socket_username_def AList.distinct_update)

lemma metrics_inv_auth:
  assumes "metrics_inv st"
  shows "metrics_inv (handleAuthentication st s d now)"
proof (cases "truthy (case d of None \<Rightarrow> None | Some dd \<Rightarrow> auth_username dd)")
  case False
  then show ?thesis using assms by (simp add: auth_rejected emit_def metrics_inv_def activeConnections_def)
next
  case True
  then obtain dd u where u: "d = Some dd" "auth_username dd = Some u" "u \<noteq> []"
    by (cases d; cases "auth_username (the d)") auto
  show ?thesis
    using metrics_inv_ru[OF assms, of u now]
    by (simp add: u(1) metrics_inv_def activeConnections_def auth_fields(3,5)[OF u(2,3)]
        set_socket_username_count set_socket_username_distinct)
qed

lemma metrics_inv_conn:
  assumes "metrics_inv st" "io_sockets_get st s = None"
  shows "metrics_inv (connection_event st s)"
proof -
  have "case map_of (sockets st) s of None \<Rightarrow> True | Some sock \<Rightarrow> \<not> connected sock"
    using assms(2) by (auto simp: io_sockets_get_def split: option.splits if_splits)
  then have "length (filter (\<lambda>(s, sock). connected sock)
                (AList.update s \<lparr>username = None, connected = True\<rparr> (sockets st))) =
             Suc (length (filter (\<lambda>(s, sock). connected sock) (sockets st)))"
    by (intro cnt_on) auto
  then show ?thesis
    using assms(1)
    by (simp add: metrics_inv_def activeConnections_def conn_fields AList.distinct_update)
qed

lemma metrics_inv_fire: "metrics_inv st \<Longrightarrow> fire st e = Some st' \<Longrightarrow> metrics_inv st'"
proof (cases e)
  case Initialize
  assume "metrics_inv st" "fire st e = Some st'"
  then show ?thesis using Initialize
    by (auto simp: metrics_inv_def activeConnections_def init_fields)
next
  case (Connection s)
  assume "metrics_inv st" "fire st e = Some st'"
  then show ?thesis using Connection by (auto simp: metrics_inv_conn split: if_splits)
next
  case (Authenticate s d now)
  assume "metrics_inv st" "fire st e = Some st'"
  then show ?thesis using Authenticate by (auto simp: metrics_inv_auth split: if_splits)
next
  case (Ping s now ms)
  assume "metrics_inv st" "fire st e = Some st'"
  then show ?thesis using Ping
    by (auto simp: metrics_inv_def activeConnections_def ping_fields2 split: if_splits)
next
  case (JoinRoom s room)
  assume "metrics_inv st" "fire st e = Some st'"
  then show ?thesis using JoinRoom
    by (auto simp: metrics_inv_def activeConnections_def join_fields join_sockets split: if_splits)
next
  case (LeaveRoom s room)
  assume "metrics_inv st" "fire st e = Some st'"
  then show ?thesis using LeaveRoom
    by (auto simp: metrics_inv_def activeConnections_def leave_fields split: if_splits)
next
  case (Disconnect s reason now)
  assume "metrics_inv st" "fire st e = Some st'"
  then show ?thesis using Disconnect by (auto simp: metrics_inv_so split: if_splits)
qed

lemma reachable_metrics_inv: "reachable st \<Longrightarrow> metrics_inv st"
proof (induction rule: reachable.induct)
  case start
  show ?case by (simp add: metrics_inv_def activeConnections_def constructor_def)
next
  case (step st e st')
  then show ?case by (auto intro: metrics_inv_fire)
qed

section \<open>Closing the previous connection\<close>

lemma bound_registry:
  "us_cu_inv st \<Longrightarrow> bound st u c \<Longrightarrow> map_option socketId (getUserInfo st u) = Some c"
  by (auto simp: bound_def getUserInfo_def dest: us_cu_invD)

lemma bound_unique:
  "us_cu_inv st \<Longrightarrow> bound st u c1 \<Longrightarrow> bound st u c2 \<Longrightarrow> c1 = c2"
  using bound_registry[of st u c1] bound_registry[of st u c2] by simp

lemma hd_outbox_prefix: "\<exists>acts. outbox (handleDisconnection st s r n) = outbox st @ acts"
  by (auto simp: hd_outbox split: option.splits)

lemma io_get_set_username:
  "sockets st' = set_socket_username s u (sockets st) \<Longrightarrow>
   (io_sockets_get st' p = None) = (io_sockets_get st p = None)"
  by (auto simp: io_sockets_get_def set_socket_username_def AList.update_conv'
      split: option.splits if_splits)

lemma ru_previous_closed:
  assumes "map_of (connectedUsers st) u = Some prev" and "socketId prev = p"
    and "io_sockets_get st p \<noteq> None"
  shows "io_sockets_get (removeUserFromPreviousSocket st u now) p = None"
    and "map_of (userSockets (removeUserFromPreviousSocket st u now)) p = None"
    and "\<exists>acts. outbox (removeUserFromPreviousSocket st u now) = outbox st @ SocketDisconnect p # acts"
    and "connectionMetrics (removeUserFromPreviousSocket st u now) =
           (connectionMetrics st)\<lparr>currentConnections := currentConnections (connectionMetrics st) - 1,
              totalDisconnections := totalDisconnections (connectionMetrics st) + 1\<rparr>"
proof -
  from assms(3) obtain sock where sock: "io_sockets_get st p = Some sock" by auto
  let ?st0 = "(emit (SocketDisconnect p) st)\<lparr>sockets := AList.update p (sock\<lparr>connected := False\<rparr>) (sockets st)\<rparr>"
  let ?h = "handleDisconnection ?st0 p ''server namespace disconnect'' now"
  have ru: "removeUserFromPreviousSocket st u now = ?h\<lparr>userSockets := AList.delete p (userSockets ?h)\<rparr>"
    using assms(1,2) by (simp add: ru_unfold sd_connected[OF sock])
  show "io_sockets_get (removeUserFromPreviousSocket st u now) p = None"
    by (simp add: ru io_sockets_get_def hd_sockets AList.update_conv')
  show "map_of (userSockets (removeUserFromPreviousSocket st u now)) p = None"
    by (simp add: ru AList.delete_conv')
  obtain acts where "outbox ?h = outbox ?st0 @ acts"
    using hd_outbox_prefix by blast
  then have "outbox (removeUserFromPreviousSocket st u now) = outbox st @ SocketDisconnect p # acts"
    by (simp add: ru emit_def)
  then show "\<exists>acts. outbox (removeUserFromPreviousSocket st u now) = outbox st @ SocketDisconnect p # acts"
    by blast
  show "connectionMetrics (removeUserFromPreviousSocket st u now) =
           (connectionMetrics st)\<lparr>currentConnections := currentConnections (connectionMetrics st) - 1,
              totalDisconnections := totalDisconnections (connectionMetrics st) + 1\<rparr>"
    by (simp add: ru hd_metrics emit_def)
qed

section \<open>The trending query\<close>

lemma broadcastMemeHighlight_initialized:
  "isInitialized st \<Longrightarrow>
   snd (broadcastMemeHighlight st mid c now env) = emit (meme_highlight mid c now env) st"
  by (simp add: broadcastMemeHighlight_def broadcast_def getIO_def meme_highlight_def)

lemma query_empty: "recentMemes_query table since = [] \<longleftrightarrow> filter (\<lambda>m. since \<le> updated_at m) table = []"
proof -
  have "sort_key (\<lambda>m. - upvote_count m) xs = [] \<longleftrightarrow> xs = []" for xs :: "meme list"
    by (metis set_sort set_empty)
  then show ?thesis by (simp add: recentMemes_query_def take_Suc split: list.splits)
qed

lemma query_top:
  assumes "recentMemes_query table since = m # ms"
  shows "ms = []" and "m \<in> set (filter (\<lambda>m. since \<le> updated_at m) table)"
    and "\<forall>m' \<in> set (filter (\<lambda>m. since \<le> updated_at m) table). upvote_count m' \<le> upvote_count m"
proof -
  let ?win = "filter (\<lambda>m. since \<le> updated_at m) table"
  let ?xs = "sort_key (\<lambda>m. - upvote_count m) ?win"
  from assms obtain rest where xs: "?xs = m # rest" and ms: "ms = []"
    by (cases ?xs) (auto simp: recentMemes_query_def)
  show "ms = []" by (rule ms)
  have "set ?xs = set ?win" by simp
  then have mem: "set ?win = insert m (set rest)" using xs by simp
  then show "m \<in> set ?win" by simp
  have "sorted (map (\<lambda>m. - upvote_count m) ?xs)" by (rule sorted_sort_key)
  then have "\<forall>y \<in> set rest. - upvote_count m \<le> - upvote_count y"
    using xs by simp
  then show "\<forall>m' \<in> set ?win. upvote_count m' \<le> upvote_count m"
    using mem by auto
qed

lemma query_leader:
  assumes "m \<in> set (filter (\<lambda>m. since \<le> updated_at m) table)"
    and "\<forall>m' \<in> set (filter (\<lambda>m. since \<le> updated_at m) table). m' \<noteq> m \<longrightarrow> upvote_count m' < upvote_count m"
  shows "recentMemes_query table since = [m]"
proof (cases "recentMemes_query table since")
  case Nil
  then show ?thesis using assms(1) by (simp add: query_empty)
next
  case (Cons x xs)
  note t = query_top[OF Cons]
  have "upvote_count m \<le> upvote_count x" using t(3) assms(1) by blast
  moreover have "x \<noteq> m \<longrightarrow> upvote_count x < upvote_count m" using t(2) assms(2) by blast
  ultimately have "x = m" by auto
  then show ?thesis using Cons t(1) by simp
qed

lemma check_unfold:
  "isInitialized st \<Longrightarrow>
   checkAndBroadcastTrendingMeme st (Some table) mid now_ms now env =
     (case recentMemes_query table (now_ms - 600000) of
        [] \<Rightarrow> st
      | m # ms \<Rightarrow> if meme_id m = mid \<and> 0 < upvote_count m \<and> upvote_count m mod 10 = 0
                  then emit (meme_highlight mid (upvote_count m) now env) st else st)"
  by (simp add: checkAndBroadcastTrendingMeme_def Let_def broadcastMemeHighlight_initialized
      split: list.splits)

section \<open>The scenario is reachable\<close>

lemma reachable_st_connected: "reachable st_connected"
proof -
  have a: "reachable (initialize constructor)"
    using reachable.step[OF reachable.start, of Initialize] by simp
  have "fire (initialize constructor) (Connection ''s1'') = Some st_connected"
    by (simp add: st_connected_def initialize_def constructor_def io_sockets_get_def)
  with a show ?thesis by (rule reachable.step)
qed

lemma reachable_st_alice: "reachable st_alice"
proof -
  have "io_sockets_get st_connected ''s1'' \<noteq> None" by code_simp
  then have "fire st_connected (Authenticate ''s1'' (Some alice_auth) ''t1'') = Some st_alice"
    by (simp add: st_alice_def)
  with reachable_st_connected show ?thesis by (rule reachable.step)
qed

lemma reachable_st_lobby: "reachable st_lobby"
proof -
  have "io_sockets_get st_alice ''s1'' \<noteq> None" by code_simp
  then have "fire st_alice (JoinRoom ''s1'' ''lobby'') = Some st_lobby"
    by (simp add: st_lobby_def)
  with reachable_st_alice show ?thesis by (rule reachable.step)
qed

lemma reachable_st_two: "reachable st_two"
proof -
  have "isInitialized st_lobby \<and> io_sockets_get st_lobby ''s2'' = None" by code_simp
  then have "fire st_lobby (Connection ''s2'') = Some st_two"
    by (simp add: st_two_def)
  with reachable_st_lobby show ?thesis by (rule reachable.step)
qed

section \<open>One connection per identity\<close>

text \<open>
  C1. In every reachable state an identity is bound to at most one connection, by
  either registry map. When a connected socket \<open>s\<close> authenticates as \<open>u\<close>: a connected
  socket \<open>p\<close> other than \<open>s\<close> that \<open>u\<close> was bound to is closed by
  \<open>removeUserFromPreviousSocket\<close> (a \<open>disconnect(true)\<close> is issued, the socket is no
  longer connected, its \<open>userSockets\<close> entry is gone) before the new binding is written,
  and stays so afterwards; after the call both maps bind \<open>u\<close> to \<open>s\<close> and to no other
  connection, and every identity is still bound to at most one connection.
\<close>

theorem one_connection_per_identity:
  assumes "reachable st"
  shows "(\<forall>u c1 c2. bound st u c1 \<and> bound st u c2 \<longrightarrow> c1 = c2)
    \<and> (\<forall>s d u now. io_sockets_get st s \<noteq> None \<and> auth_username d = Some u \<and> u \<noteq> [] \<longrightarrow>
         (\<forall>p. bound st u p \<and> p \<noteq> s \<and> io_sockets_get st p \<noteq> None \<longrightarrow>
              io_sockets_get (removeUserFromPreviousSocket st u now) p = None
            \<and> map_of (userSockets (removeUserFromPreviousSocket st u now)) p = None
            \<and> SocketDisconnect p \<in> set (outbox (removeUserFromPreviousSocket st u now))
            \<and> io_sockets_get (handleAuthentication st s (Some d) now) p = None
            \<and> map_of (userSockets (handleAuthentication st s (Some d) now)) p = None)
       \<and> map_option socketId (getUserInfo (handleAuthentication st s (Some d) now) u) = Some s
       \<and> map_of (userSockets (handleAuthentication st s (Some d) now)) s = Some u
       \<and> (\<forall>c. bound (handleAuthentication st s (Some d) now) u c \<longrightarrow> c = s)
       \<and> (\<forall>v c1 c2. bound (handleAuthentication st s (Some d) now) v c1
                    \<and> bound (handleAuthentication st s (Some d) now) v c2 \<longrightarrow> c1 = c2))"
proof -
  have inv: "us_cu_inv st" using assms by (rule reachable_us_cu_inv)
  have uniq: "\<forall>u c1 c2. bound st u c1 \<and> bound st u c2 \<longrightarrow> c1 = c2"
    using bound_unique[OF inv] by blast
  have auth: "(\<forall>p. bound st u p \<and> p \<noteq> s \<and> io_sockets_get st p \<noteq> None \<longrightarrow>
              io_sockets_get (removeUserFromPreviousSocket st u now) p = None
            \<and> map_of (userSockets (removeUserFromPreviousSocket st u now)) p = None
            \<and> SocketDisconnect p \<in> set (outbox (removeUserFromPreviousSocket st u now))
            \<and> io_sockets_get (handleAuthentication st s (Some d) now) p = None
            \<and> map_of (userSockets (handleAuthentication st s (Some d) now)) p = None)
       \<and> map_option socketId (getUserInfo (handleAuthentication st s (Some d) now) u) = Some s
       \<and> map_of (userSockets (handleAuthentication st s (Some d) now)) s = Some u
       \<and> (\<forall>c. bound (handleAuthentication st s (Some d) now) u c \<longrightarrow> c = s)
       \<and> (\<forall>v c1 c2. bound (handleAuthentication st s (Some d) now) v c1
                    \<and> bound (handleAuthentication st s (Some d) now) v c2 \<longrightarrow> c1 = c2)"
    if h: "io_sockets_get st s \<noteq> None" "auth_username d = Some u" "u \<noteq> []" for s d u now
  proof -
    let ?st1 = "removeUserFromPreviousSocket st u now"
    let ?st' = "handleAuthentication st s (Some d) now"
    note f = auth_fields[OF h(2,3), of st s now]
    have "fire st (Authenticate s (Some d) now) = Some ?st'"
      using h(1) by simp
    then have r': "reachable ?st'" using assms by (rule reachable.step[rotated])
    then have inv': "us_cu_inv ?st'" by (rule reachable_us_cu_inv)
    have cu: "map_option socketId (getUserInfo ?st' u) = Some s"
      by (simp add: getUserInfo_def f(1) AList.update_conv')
    have us: "map_of (userSockets ?st') s = Some u"
      by (simp add: f(2) AList.update_conv')
    have only: "\<forall>c. bound ?st' u c \<longrightarrow> c = s"
    proof (intro allI impI)
      fix c assume "bound ?st' u c"
      then have "map_option socketId (getUserInfo ?st' u) = Some c"
        by (rule bound_registry[OF inv'])
      then show "c = s" using cu by simp
    qed
    have uniq': "\<forall>v c1 c2. bound ?st' v c1 \<and> bound ?st' v c2 \<longrightarrow> c1 = c2"
      using bound_unique[OF inv'] by blast
    have prev: "io_sockets_get ?st1 p = None
            \<and> map_of (userSockets ?st1) p = None
            \<and> SocketDisconnect p \<in> set (outbox ?st1)
            \<and> io_sockets_get ?st' p = None
            \<and> map_of (userSockets ?st') p = None"
      if p: "bound st u p" "p \<noteq> s" "io_sockets_get st p \<noteq> None" for p
    proof -
      from bound_registry[OF inv p(1)] obtain prev
        where prev: "map_of (connectedUsers st) u = Some prev" "socketId prev = p"
        by (auto simp: getUserInfo_def)
      note c = ru_previous_closed[OF prev p(3), of now]
      have "io_sockets_get ?st' p = None"
        using io_get_set_username[OF f(3), of p] c(1) by simp
      moreover have "map_of (userSockets ?st') p = None"
        using p(2) c(2) by (simp add: f(2) AList.update_conv')
      moreover have "SocketDisconnect p \<in> set (outbox ?st1)"
        using c(3) by auto
      ultimately show ?thesis using c(1,2) by simp
    qed
    have prev_all: "\<forall>p. bound st u p \<and> p \<noteq> s \<and> io_sockets_get st p \<noteq> None \<longrightarrow>
              io_sockets_get ?st1 p = None
            \<and> map_of (userSockets ?st1) p = None
            \<and> SocketDisconnect p \<in> set (outbox ?st1)
            \<and> io_sockets_get ?st' p = None
            \<and> map_of (userSockets ?st') p = None"
    proof (intro allI impI)
      fix p assume "bound st u p \<and> p \<noteq> s \<and> io_sockets_get st p \<noteq> None"
      then show "io_sockets_get ?st1 p = None
            \<and> map_of (userSockets ?st1) p = None
            \<and> SocketDisconnect p \<in> set (outbox ?st1)
            \<and> io_sockets_get ?st' p = None
            \<and> map_of (userSockets ?st') p = None"
        by (elim conjE) (rule prev)
    qed
    show ?thesis
      by (intro conjI) (rule prev_all cu us only uniq')+
  qed
  show ?thesis
  proof (rule conjI)
    show "\<forall>u c1 c2. bound st u c1 \<and> bound st u c2 \<longrightarrow> c1 = c2" by (rule uniq)
  next
    show "\<forall>s d u now. io_sockets_get st s \<noteq> None \<and> auth_username d = Some u \<and> u \<noteq> [] \<longrightarrow>
         (\<forall>p. bound st u p \<and> p \<noteq> s \<and> io_sockets_get st p \<noteq> None \<longrightarrow>
              io_sockets_get (removeUserFromPreviousSocket st u now) p = None
            \<and> map_of (userSockets (removeUserFromPreviousSocket st u now)) p = None
            \<and> SocketDisconnect p \<in> set (outbox (removeUserFromPreviousSocket st u now))
            \<and> io_sockets_get (handleAuthentication st s (Some d) now) p = None
            \<and> map_of (userSockets (handleAuthentication st s (Some d) now)) p = None)
       \<and> map_option socketId (getUserInfo (handleAuthentication st s (Some d) now) u) = Some s
       \<and> map_of (userSockets (handleAuthentication st s (Some d) now)) s = Some u
       \<and> (\<forall>c. bound (handleAuthentication st s (Some d) now) u c \<longrightarrow> c = s)
       \<and> (\<forall>v c1 c2. bound (handleAuthentication st s (Some d) now) v c1
                    \<and> bound (handleAuthentication st s (Some d) now) v c2 \<longrightarrow> c1 = c2)"
      by (intro allI impI, elim conjE) (rule auth)
  qed
qed

theorem one_connection_per_identity_witness:
  "reachable st_two
   \<and> io_sockets_get st_two ''s2'' \<noteq> None \<and> auth_username alice_auth = Some ''alice''
   \<and> ''alice'' \<noteq> []
   \<and> bound st_two ''alice'' ''s1'' \<and> ''s1'' \<noteq> ''s2'' \<and> io_sockets_get st_two ''s1'' \<noteq> None
   \<and> io_sockets_get (removeUserFromPreviousSocket st_two ''alice'' ''t2'') ''s1'' = None
   \<and> SocketDisconnect ''s1'' \<in> set (outbox (removeUserFromPreviousSocket st_two ''alice'' ''t2''))
   \<and> io_sockets_get (handleAuthentication st_two ''s2'' (Some alice_auth) ''t2'') ''s1'' = None
   \<and> map_of (userSockets (handleAuthentication st_two ''s2'' (Some alice_auth) ''t2'')) ''s1'' = None
   \<and> map_option socketId
        (getUserInfo (handleAuthentication st_two ''s2'' (Some alice_auth) ''t2'') ''alice'')
       = Some ''s2''
   \<and> map_of (userSockets (handleAuthentication st_two ''s2'' (Some alice_auth) ''t2'')) ''s2''
       = Some ''alice''"
proof -
  have h1: "io_sockets_get st_two ''s2'' \<noteq> None" by code_simp
  have h2: "auth_username alice_auth = Some ''alice''" by code_simp
  have h3: "''alice'' \<noteq> []" by simp
  have h4: "bound st_two ''alice'' ''s1''" by code_simp
  have h5: "''s1'' \<noteq> ''s2''" by simp
  have h6: "io_sockets_get st_two ''s1'' \<noteq> None" by code_simp
  note t = one_connection_per_identity[OF reachable_st_two, THEN conjunct2, rule_format,
      of "''s2''" alice_auth "''alice''" "''t2''", OF conjI[OF h1 conjI[OF h2 h3]]]
  note p = t[THEN conjunct1, rule_format, of "''s1''", OF conjI[OF h4 conjI[OF h5 h6]]]
  show ?thesis
    using reachable_st_two h1 h2 h3 h4 h5 h6 p t by simp
qed

section \<open>Connection metrics\<close>

text \<open>
  C2, as the claim states it, fails: the snapshot of \<open>getConnectionMetrics\<close> overwrites
  \<open>currentConnections\<close> with the number of connected users. After the server start and
  one connection that has not authenticated, one connection is active and the snapshot
  reports none.
\<close>

theorem snapshot_currentConnections_counterexample:
  "fire constructor Initialize = Some (initialize constructor)
   \<and> fire (initialize constructor) (Connection ''s1'') = Some st_connected
   \<and> activeConnections st_connected = [''s1'']
   \<and> snap_currentConnections (getConnectionMetrics st_connected) = 0
   \<and> snap_currentConnections (getConnectionMetrics st_connected)
       \<noteq> int (length (activeConnections st_connected))"
  by (simp add: st_connected_def initialize_def constructor_def io_sockets_get_def
      connection_event_def handleConnection_def emit_def activeConnections_def
      getConnectionMetrics_def)

text \<open>
  C2, amended. In every reachable state the counters kept in \<open>connectionMetrics\<close>
  satisfy \<open>currentConnections \<le> totalConnections\<close>, and \<open>currentConnections\<close> is the
  number of active connections (the connected sockets, authenticated or not, each
  counted once); the snapshot reports \<open>totalConnections\<close> as kept and, as
  \<open>currentConnections\<close>, the number of connected users. A connection adds one to
  \<open>totalConnections\<close> and to \<open>currentConnections\<close>; the close of a connected socket
  takes one from \<open>currentConnections\<close>.
\<close>

theorem connection_counters:
  assumes "reachable st"
  shows "currentConnections (connectionMetrics st) \<le> totalConnections (connectionMetrics st)
       \<and> currentConnections (connectionMetrics st) = int (length (activeConnections st))
       \<and> distinct (activeConnections st)
       \<and> set (activeConnections st) = {s. io_sockets_get st s \<noteq> None}
       \<and> snap_totalConnections (getConnectionMetrics st) = totalConnections (connectionMetrics st)
       \<and> snap_currentConnections (getConnectionMetrics st) = int (getConnectedUsersCount st)
       \<and> (\<forall>s. totalConnections (connectionMetrics (connection_event st s)) =
                 totalConnections (connectionMetrics st) + 1
              \<and> currentConnections (connectionMetrics (connection_event st s)) =
                 currentConnections (connectionMetrics st) + 1)
       \<and> (\<forall>s reason now. io_sockets_get st s \<noteq> None \<longrightarrow>
              currentConnections (connectionMetrics (socket_onclose st s reason now)) =
                 currentConnections (connectionMetrics st) - 1)"
proof -
  have m: "metrics_inv st" using assms by (rule reachable_metrics_inv)
  have d: "distinct (map fst (sockets st))" using m by (simp add: metrics_inv_def)
  have a: "distinct (activeConnections st)"
    using d by (simp add: activeConnections_def distinct_map_filter)
  have b: "set (activeConnections st) = {s. io_sockets_get st s \<noteq> None}"
  proof (intro set_eqI iffI)
    fix s assume "s \<in> set (activeConnections st)"
    then obtain sock where "(s, sock) \<in> set (sockets st)" "connected sock"
      by (auto simp: activeConnections_def)
    then have "map_of (sockets st) s = Some sock" "connected sock"
      using d by simp_all
    then show "s \<in> {s. io_sockets_get st s \<noteq> None}"
      by (simp add: io_sockets_get_def)
  next
    fix s assume "s \<in> {s. io_sockets_get st s \<noteq> None}"
    then obtain sock where "map_of (sockets st) s = Some sock" "connected sock"
      by (auto simp: io_sockets_get_def split: option.splits if_splits)
    then have "(s, sock) \<in> set (sockets st)" "connected sock"
      by (simp_all add: map_of_SomeD)
    then show "s \<in> set (activeConnections st)"
      by (force simp: activeConnections_def)
  qed
  have c: "\<forall>s reason now. io_sockets_get st s \<noteq> None \<longrightarrow>
              currentConnections (connectionMetrics (socket_onclose st s reason now)) =
                 currentConnections (connectionMetrics st) - 1"
    by (auto simp: so_connected hd_simps)
  show ?thesis
    using m a b c
    by (simp add: metrics_inv_def getConnectionMetrics_def getConnectedUsersCount_def conn_fields)
qed

theorem connection_counters_witness:
  "reachable st_two
   \<and> currentConnections (connectionMetrics st_two) = 2
   \<and> totalConnections (connectionMetrics st_two) = 2
   \<and> activeConnections st_two = [''s1'', ''s2'']
   \<and> snap_currentConnections (getConnectionMetrics st_two) = 1
   \<and> io_sockets_get st_two ''s1'' \<noteq> None
   \<and> currentConnections (connectionMetrics (socket_onclose st_two ''s1'' ''transport close'' ''t2''))
       = 1"
proof -
  have a: "activeConnections st_two = [''s1'', ''s2'']" by code_simp
  have u: "getConnectedUsersCount st_two = 1" by code_simp
  have t: "totalConnections (connectionMetrics st_two) = 2" by code_simp
  have h: "io_sockets_get st_two ''s1'' \<noteq> None" by code_simp
  note c = connection_counters[OF reachable_st_two]
  have "currentConnections (connectionMetrics (socket_onclose st_two ''s1'' ''transport close'' ''t2''))
          = currentConnections (connectionMetrics st_two) - 1"
    using c h by blast
  then show ?thesis
    using reachable_st_two a u t h c by simp
qed

section \<open>Rejected authentication\<close>

text \<open>
  C3. An \<open>authenticate\<close> whose payload has no username, or an empty one, sends
  \<open>authentication_error\<close> to the socket that sent it and does nothing else: the state
  after the call is the state before it with that one emission appended, so the
  connected users, the socket-to-username map, the rooms, the metrics and the socket
  (still connected, still without a username if it had none) are the same.
\<close>

theorem handleAuthentication_missing_username:
  assumes "\<not> truthy (auth_username d)"
  shows "handleAuthentication st s (Some d) now =
           st\<lparr>outbox := outbox st @
                 [SocketEmit s ''authentication_error''
                    [(''error'', JStr ''Username is required'')]]\<rparr>
         \<and> connectedUsers (handleAuthentication st s (Some d) now) = connectedUsers st
         \<and> userSockets (handleAuthentication st s (Some d) now) = userSockets st
         \<and> rooms (handleAuthentication st s (Some d) now) = rooms st
         \<and> connectionMetrics (handleAuthentication st s (Some d) now) = connectionMetrics st
         \<and> io_sockets_get (handleAuthentication st s (Some d) now) s = io_sockets_get st s
         \<and> socket_username (handleAuthentication st s (Some d) now) s = socket_username st s"
  using assms
  by (simp add: handleAuthentication_def emit_def io_sockets_get_def socket_username_def)

theorem handleAuthentication_missing_username_witness:
  "\<not> truthy (auth_username empty_auth)
   \<and> handleAuthentication st_connected ''s1'' (Some empty_auth) ''t1'' =
       st_connected\<lparr>outbox := outbox st_connected @
          [SocketEmit ''s1'' ''authentication_error'' [(''error'', JStr ''Username is required'')]]\<rparr>
   \<and> socket_username (handleAuthentication st_connected ''s1'' (Some empty_auth) ''t1'') ''s1''
       = None"
proof -
  have h: "\<not> truthy (auth_username empty_auth)"
    by (simp add: empty_auth_def)
  have u: "socket_username st_connected ''s1'' = None"
    by (simp add: st_connected_def connection_event_def handleConnection_def emit_def
        socket_username_def initialize_def constructor_def)
  show ?thesis
    using h u
      handleAuthentication_missing_username[OF h, of st_connected "''s1''" "''t1''"]
    by (simp add: socket_username_def)
qed

section \<open>Joining and leaving a room\<close>

text \<open>
  C4. For a socket authenticated as \<open>A\<close>: after \<open>join_room\<close> for room \<open>r\<close> the members
  of \<open>r\<close> contain \<open>A\<close>; a second \<open>join_room\<close> leaves the room directory (and so the
  members of \<open>r\<close>) as the first one left it; after \<open>leave_room\<close> the members of \<open>r\<close> do
  not contain \<open>A\<close>.
\<close>

theorem join_leave_members:
  assumes "socket_username st s = Some A" and "A \<noteq> []"
  shows "A \<in> set (getRoomUsers (handleJoinRoom st s r) r)
         \<and> rooms (handleJoinRoom (handleJoinRoom st s r) s r) = rooms (handleJoinRoom st s r)
         \<and> getRoomUsers (handleJoinRoom (handleJoinRoom st s r) s r) r =
             getRoomUsers (handleJoinRoom st s r) r
         \<and> A \<notin> set (getRoomUsers (handleLeaveRoom st s r) r)"
proof -
  have "A \<in> set (getRoomUsers (handleJoinRoom st s r) r)"
    using assms by (simp add: join_members set_add_member)
  moreover have
    "rooms (handleJoinRoom (handleJoinRoom st s r) s r) = rooms (handleJoinRoom st s r)"
    using assms by (rule join_idem)
  moreover have "A \<notin> set (getRoomUsers (handleLeaveRoom st s r) r)"
    using assms by (rule leave_members)
  ultimately show ?thesis
    by (simp add: getRoomUsers_def)
qed

theorem join_leave_members_witness:
  "socket_username st_alice ''s1'' = Some ''alice'' \<and> ''alice'' \<noteq> []
   \<and> ''alice'' \<in> set (getRoomUsers (handleJoinRoom st_alice ''s1'' ''lobby'') ''lobby'')
   \<and> getRoomUsers (handleJoinRoom (handleJoinRoom st_alice ''s1'' ''lobby'') ''s1'' ''lobby'')
         ''lobby'' = getRoomUsers (handleJoinRoom st_alice ''s1'' ''lobby'') ''lobby''
   \<and> ''alice'' \<notin> set (getRoomUsers (handleLeaveRoom st_lobby ''s1'' ''lobby'') ''lobby'')"
proof -
  have h1: "socket_username st_alice ''s1'' = Some ''alice''"
    by code_simp
  have h2: "socket_username st_lobby ''s1'' = Some ''alice''"
    by code_simp
  have h3: "''alice'' \<noteq> []"
    by simp
  show ?thesis
    using h1 join_leave_members[OF h1 h3, of "''lobby''"]
      join_leave_members[OF h2 h3, of "''lobby''"]
    by simp
qed

section \<open>Rooms exist while they have members\<close>

text \<open>
  C5. In every reachable state a room is listed by \<open>getAllRooms\<close> exactly when it has
  a member: no operation leaves an entry with an empty membership set behind. The
  directory starts empty, and \<open>join_room\<close> of an authenticated socket makes the room
  listed.
\<close>

theorem rooms_have_members:
  assumes "reachable st"
  shows "(r \<in> set (getAllRooms st) \<longleftrightarrow> getRoomUsers st r \<noteq> [])
       \<and> (\<forall>s u. socket_username st s = Some u \<and> u \<noteq> [] \<longrightarrow>
             r \<in> set (getAllRooms (handleJoinRoom st s r)))
       \<and> getAllRooms constructor = []"
proof -
  have inv: "rooms_inv st" using assms by (rule reachable_rooms_inv)
  have a: "r \<in> set (getAllRooms st) \<longleftrightarrow> getRoomUsers st r \<noteq> []"
  proof
    assume "r \<in> set (getAllRooms st)"
    then obtain us where us: "map_of (rooms st) r = Some us"
      by (cases "map_of (rooms st) r") (auto simp: getAllRooms_def map_of_eq_None_iff)
    then have "(r, us) \<in> set (rooms st)" by (rule map_of_SomeD)
    then have "us \<noteq> []" using inv by (auto simp: rooms_inv_def)
    then show "getRoomUsers st r \<noteq> []" using us by (simp add: getRoomUsers_def)
  next
    assume "getRoomUsers st r \<noteq> []"
    then obtain us where "map_of (rooms st) r = Some us"
      by (cases "map_of (rooms st) r") (auto simp: getRoomUsers_def)
    then have "(r, us) \<in> set (rooms st)" by (rule map_of_SomeD)
    then show "r \<in> set (getAllRooms st)" by (auto simp: getAllRooms_def intro: rev_image_eqI)
  qed
  have b: "\<forall>s u. socket_username st s = Some u \<and> u \<noteq> [] \<longrightarrow> r \<in> set (getAllRooms (handleJoinRoom st s r))"
    by (auto simp: getAllRooms_def join_rooms_update AList.dom_update)
  show ?thesis using a b by (simp add: getAllRooms_def constructor_def)
qed

theorem rooms_have_members_witness:
  "reachable st_lobby
   \<and> ''lobby'' \<in> set (getAllRooms st_lobby) \<and> getRoomUsers st_lobby ''lobby'' \<noteq> []
   \<and> socket_username st_alice ''s1'' = Some ''alice'' \<and> ''alice'' \<noteq> []
   \<and> ''lobby'' \<notin> set (getAllRooms st_alice)
   \<and> ''lobby'' \<in> set (getAllRooms (handleJoinRoom st_alice ''s1'' ''lobby''))"
proof -
  have h1: "''lobby'' \<in> set (getAllRooms st_lobby)" by code_simp
  have h2: "socket_username st_alice ''s1'' = Some ''alice''" by code_simp
  have h3: "''lobby'' \<notin> set (getAllRooms st_alice)" by code_simp
  note a = rooms_have_members[OF reachable_st_lobby, of "''lobby''"]
  note b = rooms_have_members[OF reachable_st_alice, of "''lobby''"]
  have "getRoomUsers st_lobby ''lobby'' \<noteq> []" using a h1 by blast
  moreover have "''lobby'' \<in> set (getAllRooms (handleJoinRoom st_alice ''s1'' ''lobby''))"
    using b h2 by blast
  ultimately show ?thesis
    using reachable_st_lobby h1 h2 h3 by simp
qed

section \<open>Disconnection of an authenticated connection\<close>

text \<open>
  C6. When a connected socket \<open>s\<close> that is authenticated as \<open>u\<close> closes: no room has
  \<open>u\<close> among its users afterwards (each room loses \<open>u\<close>, and is dropped when nobody
  is left); for each room that had \<open>u\<close>, in the order of the directory, a
  \<open>user_left_room\<close> is sent to the others in that room, followed by the broadcast of
  \<open>user_status\<close> \<open>offline\<close> and the manager's \<open>user_disconnected\<close>; the session of
  \<open>u\<close> and the entry of \<open>s\<close> are removed, so \<open>u\<close> is not online.
\<close>

theorem disconnection_purges_identity:
  assumes conn: "io_sockets_get st s \<noteq> None"
    and auth: "map_of (userSockets st) s = Some u" "u \<noteq> []"
  shows "(\<forall>room. u \<notin> set (getRoomUsers (socket_onclose st s reason now) room))
       \<and> rooms (socket_onclose st s reason now) =
           List.map_filter (\<lambda>(room, users). if u \<in> set users \<and> set_delete u users = [] then None
                                  else Some (room, set_delete u users)) (rooms st)
       \<and> outbox (socket_onclose st s reason now) = outbox st @
           map (\<lambda>(room, users). SocketToEmit s room ''user_left_room'' [(''room'', JStr room), (''username'', JStr u)])
               (filter (\<lambda>(room, users). u \<in> set users) (rooms st)) @
           [IoEmit ''user_status'' [(''username'', JStr u), (''status'', JStr ''offline''), (''timestamp'', JStr now)],
            ManagerEmit ''user_disconnected'' [(''username'', JStr u), (''reason'', JStr reason), (''socket'', JStr s)]]
       \<and> getUserInfo (socket_onclose st s reason now) u = None
       \<and> map_of (userSockets (socket_onclose st s reason now)) s = None
       \<and> \<not> isUserOnline (socket_onclose st s reason now) u
       \<and> io_sockets_get (socket_onclose st s reason now) s = None"
proof -
  from conn obtain sock where sock: "io_sockets_get st s = Some sock" by auto
  let ?st0 = "st\<lparr>sockets := AList.update s (sock\<lparr>connected := False\<rparr>) (sockets st)\<rparr>"
  let ?st' = "socket_onclose st s reason now"
  have eq: "?st' = handleDisconnection ?st0 s reason now"
    by (rule so_connected[OF sock])
  have rs: "rooms ?st' = fst (removeFromAllRooms s u (rooms st))"
    using auth by (simp add: eq hd_rooms)
  have a: "\<forall>room. u \<notin> set (getRoomUsers ?st' room)"
  proof
    fix room
    show "u \<notin> set (getRoomUsers ?st' room)"
    proof (cases "map_of (rooms ?st') room")
      case None
      then show ?thesis by (simp add: getRoomUsers_def)
    next
      case (Some us)
      then have "(room, us) \<in> set (fst (removeFromAllRooms s u (rooms st)))"
        using rs by (simp add: map_of_SomeD)
      then have "u \<notin> set us" by (rule rfar_no_member)
      then show ?thesis using Some by (simp add: getRoomUsers_def)
    qed
  qed
  have b: "rooms ?st' = List.map_filter (\<lambda>(room, users). if u \<in> set users \<and> set_delete u users = [] then None
                                  else Some (room, set_delete u users)) (rooms st)"
    using rs by (simp add: rfar_rooms)
  have c: "outbox ?st' = outbox st @
           map (\<lambda>(room, users). SocketToEmit s room ''user_left_room'' [(''room'', JStr room), (''username'', JStr u)])
               (filter (\<lambda>(room, users). u \<in> set users) (rooms st)) @
           [IoEmit ''user_status'' [(''username'', JStr u), (''status'', JStr ''offline''), (''timestamp'', JStr now)],
            ManagerEmit ''user_disconnected'' [(''username'', JStr u), (''reason'', JStr reason), (''socket'', JStr s)]]"
    using auth by (simp add: eq hd_outbox rfar_acts)
  have d: "getUserInfo ?st' u = None"
    using auth by (simp add: eq getUserInfo_def hd_connectedUsers AList.delete_conv')
  have e: "map_of (userSockets ?st') s = None"
    using auth by (simp add: eq hd_userSockets AList.delete_conv')
  have f: "io_sockets_get ?st' s = None"
    by (simp add: eq io_sockets_get_def hd_sockets AList.update_conv')
  from a b c d e f show ?thesis
    by (simp add: isUserOnline_def getUserInfo_def)
qed

theorem disconnection_purges_identity_witness:
  "io_sockets_get st_two ''s1'' \<noteq> None
   \<and> map_of (userSockets st_two) ''s1'' = Some ''alice'' \<and> ''alice'' \<noteq> []
   \<and> getRoomUsers st_two ''lobby'' = [''alice'']
   \<and> ''alice'' \<notin> set (getRoomUsers (socket_onclose st_two ''s1'' ''transport close'' ''t2'') ''lobby'')
   \<and> rooms (socket_onclose st_two ''s1'' ''transport close'' ''t2'') = []
   \<and> outbox (socket_onclose st_two ''s1'' ''transport close'' ''t2'') =
       outbox st_two @
       [SocketToEmit ''s1'' ''lobby'' ''user_left_room''
          [(''room'', JStr ''lobby''), (''username'', JStr ''alice'')],
        IoEmit ''user_status''
          [(''username'', JStr ''alice''), (''status'', JStr ''offline''),
           (''timestamp'', JStr ''t2'')],
        ManagerEmit ''user_disconnected''
          [(''username'', JStr ''alice''), (''reason'', JStr ''transport close''),
           (''socket'', JStr ''s1'')]]
   \<and> \<not> isUserOnline (socket_onclose st_two ''s1'' ''transport close'' ''t2'') ''alice''"
proof -
  have h1: "io_sockets_get st_two ''s1'' \<noteq> None" by code_simp
  have h2: "map_of (userSockets st_two) ''s1'' = Some ''alice''" by code_simp
  have h3: "''alice'' \<noteq> []" by simp
  have r: "rooms st_two = [(''lobby'', [''alice''])]" by code_simp
  have g: "getRoomUsers st_two ''lobby'' = [''alice'']" by code_simp
  note t = disconnection_purges_identity[OF h1 h2 h3, of "''transport close''" "''t2''"]
  show ?thesis
    using h1 h2 g t by (simp add: r List.map_filter_simps set_delete_def)
qed

section \<open>Sending to one identity\<close>

text \<open>
  C7. In every reachable state \<open>sendToUser\<close> returns false and sends nothing when the
  identity is not online; when it is online it returns true and sends exactly one
  message, to the socket id of the identity's session. The message is the payload with
  \<open>timestamp\<close> set to the time of sending and \<open>serverId\<close> set to the server's id
  (\<open>server-1\<close> unless the environment names another); every other field is the
  payload's.
\<close>

theorem sendToUser_delivery:
  assumes "reachable st"
  shows "(\<not> isUserOnline st u \<longrightarrow> sendToUser st u ev data now env = (False, st))
       \<and> (\<forall>info. getUserInfo st u = Some info \<longrightarrow>
             sendToUser st u ev data now env =
               (True, st\<lparr>outbox := outbox st @ [IoToEmit (socketId info) ev (formatMessage data now env)]\<rparr>))
       \<and> map_of (formatMessage data now env) ''timestamp'' = Some (JStr now)
       \<and> map_of (formatMessage data now env) ''serverId'' =
            Some (JStr (if truthy env then the env else ''server-1''))
       \<and> (\<forall>k. k \<noteq> ''timestamp'' \<and> k \<noteq> ''serverId'' \<longrightarrow>
             map_of (formatMessage data now env) k = map_of data k)"
proof -
  have i: "init_inv st" using assms by (rule reachable_init_inv)
  have a: "\<not> isUserOnline st u \<longrightarrow> sendToUser st u ev data now env = (False, st)"
    by (simp add: isUserOnline_def sendToUser_def getUserInfo_def)
  have b: "\<forall>info. getUserInfo st u = Some info \<longrightarrow>
             sendToUser st u ev data now env =
               (True, st\<lparr>outbox := outbox st @ [IoToEmit (socketId info) ev (formatMessage data now env)]\<rparr>)"
  proof (intro allI impI)
    fix info assume h: "getUserInfo st u = Some info"
    then have "connectedUsers st \<noteq> []" by (auto simp: getUserInfo_def)
    then have "isInitialized st" using i by (simp add: init_inv_def)
    then show "sendToUser st u ev data now env =
               (True, st\<lparr>outbox := outbox st @ [IoToEmit (socketId info) ev (formatMessage data now env)]\<rparr>)"
      using h by (simp add: sendToUser_def getIO_def emit_def)
  qed
  have c: "map_of (formatMessage data now env) ''timestamp'' = Some (JStr now)
       \<and> map_of (formatMessage data now env) ''serverId'' =
            Some (JStr (if truthy env then the env else ''server-1''))
       \<and> (\<forall>k. k \<noteq> ''timestamp'' \<and> k \<noteq> ''serverId'' \<longrightarrow>
             map_of (formatMessage data now env) k = map_of data k)"
    by (cases env) (auto simp: formatMessage_def AList.update_conv')
  from a b c show ?thesis by blast
qed

theorem sendToUser_delivery_witness:
  "reachable st_alice
   \<and> \<not> isUserOnline st_alice ''bob''
   \<and> sendToUser st_alice ''bob'' ''notification'' [(''type'', JStr ''NOTIFICATION'')] ''t2'' None
       = (False, st_alice)
   \<and> map_option socketId (getUserInfo st_alice ''alice'') = Some ''s1''
   \<and> sendToUser st_alice ''alice'' ''notification'' [(''type'', JStr ''NOTIFICATION'')] ''t2'' None
       = (True, st_alice\<lparr>outbox := outbox st_alice @
            [IoToEmit ''s1'' ''notification''
               [(''type'', JStr ''NOTIFICATION''), (''timestamp'', JStr ''t2''),
                (''serverId'', JStr ''server-1'')]]\<rparr>)"
proof -
  have h1: "\<not> isUserOnline st_alice ''bob''" by code_simp
  obtain info where h2: "getUserInfo st_alice ''alice'' = Some info" and h3: "socketId info = ''s1''"
    by (simp add: getUserInfo_def st_alice_def st_connected_def alice_auth_def
        auth_fields AList.update_conv')
  have f: "formatMessage [(''type'', JStr ''NOTIFICATION'')] ''t2'' None =
             [(''type'', JStr ''NOTIFICATION''), (''timestamp'', JStr ''t2''),
              (''serverId'', JStr ''server-1'')]" by code_simp
  note t = sendToUser_delivery[OF reachable_st_alice]
  have a: "sendToUser st_alice ''bob'' ''notification'' [(''type'', JStr ''NOTIFICATION'')] ''t2'' None
       = (False, st_alice)"
    using t[of "''bob''"] h1 by blast
  have b: "sendToUser st_alice ''alice'' ''notification'' [(''type'', JStr ''NOTIFICATION'')] ''t2'' None
       = (True, st_alice\<lparr>outbox := outbox st_alice @
            [IoToEmit (socketId info) ''notification''
               (formatMessage [(''type'', JStr ''NOTIFICATION'')] ''t2'' None)]\<rparr>)"
    using t[of "''alice''"] h2 by blast
  show ?thesis
    using reachable_st_alice h1 h2 h3 a b by (simp add: f)
qed

section \<open>Heartbeat\<close>

text \<open>
  C8. \<open>handlePing\<close> answers \<open>pong\<close> on the socket and otherwise changes nothing but
  one thing: in the session of the identity the socket is authenticated as,
  \<open>lastSeen\<close> becomes the current time. The socket id and every other field of that
  session's data, every other session, the set of connected users, \<open>userSockets\<close>, the
  rooms, the metrics and the sockets stay as they were; for a socket that is not
  authenticated \<open>connectedUsers\<close> is unchanged as a whole.
\<close>

theorem handlePing_frame:
  "userSockets (handlePing st s now ms) = userSockets st
   \<and> rooms (handlePing st s now ms) = rooms st
   \<and> connectionMetrics (handlePing st s now ms) = connectionMetrics st
   \<and> sockets (handlePing st s now ms) = sockets st
   \<and> isInitialized (handlePing st s now ms) = isInitialized st
   \<and> outbox (handlePing st s now ms) = outbox st @ [SocketEmit s ''pong'' [(''timestamp'', JStr now), (''serverTime'', JNum ms)]]
   \<and> map fst (connectedUsers (handlePing st s now ms)) = map fst (connectedUsers st)
   \<and> (\<forall>u'. map_of (userSockets st) s \<noteq> Some u' \<longrightarrow> getUserInfo (handlePing st s now ms) u' = getUserInfo st u')
   \<and> (map_of (userSockets st) s = None \<longrightarrow> connectedUsers (handlePing st s now ms) = connectedUsers st)
   \<and> (\<forall>u info. map_of (userSockets st) s = Some u \<and> u \<noteq> [] \<and> getUserInfo st u = Some info \<longrightarrow>
        (\<exists>info'. getUserInfo (handlePing st s now ms) u = Some info'
           \<and> socketId info' = socketId info
           \<and> map_of (userData info') ''lastSeen'' = Some (JStr now)
           \<and> (\<forall>k. k \<noteq> ''lastSeen'' \<longrightarrow> map_of (userData info') k = map_of (userData info) k)))"
  by (auto simp: handlePing_def emit_def Let_def getUserInfo_def AList.update_conv' update_keys_present
      split: option.splits)

theorem handlePing_frame_witness:
  "map_of (userSockets st_two) ''s1'' = Some ''alice'' \<and> ''alice'' \<noteq> []
   \<and> map_of (userSockets st_two) ''s2'' = None
   \<and> connectedUsers (handlePing st_two ''s2'' ''t9'' 9) = connectedUsers st_two
   \<and> getUserInfo st_two ''alice'' =
        Some \<lparr>socketId = ''s1'',
              userData = [(''connectedAt'', JStr ''t1''), (''lastSeen'', JStr ''t1'')]\<rparr>
   \<and> getUserInfo (handlePing st_two ''s1'' ''t9'' 9) ''alice'' =
        Some \<lparr>socketId = ''s1'',
              userData = [(''connectedAt'', JStr ''t1''), (''lastSeen'', JStr ''t9'')]\<rparr>
   \<and> rooms (handlePing st_two ''s1'' ''t9'' 9) = rooms st_two
   \<and> connectionMetrics (handlePing st_two ''s1'' ''t9'' 9) = connectionMetrics st_two"
proof -
  have h1: "map_of (userSockets st_two) ''s1'' = Some ''alice''" by code_simp
  have h2: "map_of (userSockets st_two) ''s2'' = None" by code_simp
  have h3: "getUserInfo st_two ''alice'' =
        Some \<lparr>socketId = ''s1'',
              userData = [(''connectedAt'', JStr ''t1''), (''lastSeen'', JStr ''t1'')]\<rparr>"
    by code_simp
  have e: "getUserInfo (handlePing st_two ''s1'' ''t9'' 9) ''alice'' =
        Some \<lparr>socketId = ''s1'',
              userData = [(''connectedAt'', JStr ''t1''), (''lastSeen'', JStr ''t9'')]\<rparr>"
    by code_simp
  note a = handlePing_frame[of st_two "''s2''" "''t9''" 9]
  note b = handlePing_frame[of st_two "''s1''" "''t9''" 9]
  have "connectedUsers (handlePing st_two ''s2'' ''t9'' 9) = connectedUsers st_two"
    using a h2 by blast
  then show ?thesis
    using h1 h2 h3 e b by simp
qed

section \<open>Trending highlight\<close>

text \<open>
  C9. With the socket server initialised and the query answered, the check after a vote
  on meme \<open>M\<close> sends something exactly when the row the query returns (the first of
  the rows updated in the last ten minutes, by descending upvote count) is \<open>M\<close> and
  its count is positive and a multiple of ten; what it sends then is one
  \<open>meme_highlight\<close> broadcast for \<open>M\<close> with that count, and otherwise the state is
  unchanged. The row returned is a row of the window with the highest count, and a row
  whose count is above every other row's of the window is the row returned.
\<close>

theorem trending_highlight:
  assumes "isInitialized st"
  shows "(outbox (checkAndBroadcastTrendingMeme st (Some table) M now_ms now env) \<noteq> outbox st
          \<longleftrightarrow> (\<exists>m. recentMemes_query table (now_ms - 600000) = [m] \<and> meme_id m = M
                    \<and> 0 < upvote_count m \<and> upvote_count m mod 10 = 0))
       \<and> (\<forall>m. recentMemes_query table (now_ms - 600000) = [m] \<and> meme_id m = M
                \<and> 0 < upvote_count m \<and> upvote_count m mod 10 = 0 \<longrightarrow>
              checkAndBroadcastTrendingMeme st (Some table) M now_ms now env =
                emit (meme_highlight M (upvote_count m) now env) st)
       \<and> (outbox (checkAndBroadcastTrendingMeme st (Some table) M now_ms now env) = outbox st \<longrightarrow>
              checkAndBroadcastTrendingMeme st (Some table) M now_ms now env = st)
       \<and> (\<forall>m. recentMemes_query table (now_ms - 600000) = [m] \<longrightarrow>
              m \<in> set (recent table now_ms)
              \<and> (\<forall>m' \<in> set (recent table now_ms). upvote_count m' \<le> upvote_count m))
       \<and> (\<forall>m \<in> set (recent table now_ms).
              (\<forall>m' \<in> set (recent table now_ms). m' \<noteq> m \<longrightarrow> upvote_count m' < upvote_count m) \<longrightarrow>
              recentMemes_query table (now_ms - 600000) = [m])"
proof -
  let ?q = "recentMemes_query table (now_ms - 600000)"
  let ?st' = "checkAndBroadcastTrendingMeme st (Some table) M now_ms now env"
  have u: "?st' = (case ?q of [] \<Rightarrow> st
      | m # ms \<Rightarrow> if meme_id m = M \<and> 0 < upvote_count m \<and> upvote_count m mod 10 = 0
                  then emit (meme_highlight M (upvote_count m) now env) st else st)"
    using assms by (rule check_unfold)
  have single: "ms = []" if "?q = m # ms" for m ms
    using that by (rule query_top(1))
  have a: "outbox ?st' \<noteq> outbox st
          \<longleftrightarrow> (\<exists>m. ?q = [m] \<and> meme_id m = M \<and> 0 < upvote_count m \<and> upvote_count m mod 10 = 0)"
    using single by (cases ?q) (auto simp: u emit_def)
  have b: "\<forall>m. ?q = [m] \<and> meme_id m = M \<and> 0 < upvote_count m \<and> upvote_count m mod 10 = 0 \<longrightarrow>
              ?st' = emit (meme_highlight M (upvote_count m) now env) st"
    by (auto simp: u)
  have c: "outbox ?st' = outbox st \<longrightarrow> ?st' = st"
    by (cases ?q) (auto simp: u emit_def)
  have d: "\<forall>m. ?q = [m] \<longrightarrow> m \<in> set (recent table now_ms)
              \<and> (\<forall>m' \<in> set (recent table now_ms). upvote_count m' \<le> upvote_count m)"
    using query_top(2,3)[of table "now_ms - 600000"] by (auto simp: recent_def)
  have e: "\<forall>m \<in> set (recent table now_ms).
              (\<forall>m' \<in> set (recent table now_ms). m' \<noteq> m \<longrightarrow> upvote_count m' < upvote_count m) \<longrightarrow>
              ?q = [m]"
    using query_leader[of _ "now_ms - 600000" table] by (auto simp: recent_def)
  show ?thesis by (intro conjI) (rule a b c d e)+
qed

theorem trending_highlight_witness:
  "isInitialized st_alice
   \<and> recentMemes_query memes_table (1000500 - 600000) =
        [\<lparr>meme_id = 1, upvote_count = 20, updated_at = 1000000\<rparr>]
   \<and> checkAndBroadcastTrendingMeme st_alice (Some memes_table) 1 1000500 ''t2'' None =
        emit (meme_highlight 1 20 ''t2'' None) st_alice
   \<and> outbox (checkAndBroadcastTrendingMeme st_alice (Some memes_table) 2 1000500 ''t2'' None)
        = outbox st_alice"
proof -
  let ?row = "\<lparr>meme_id = 1, upvote_count = 20, updated_at = 1000000\<rparr>"
  have h1: "isInitialized st_alice" by code_simp
  have q: "recentMemes_query memes_table (1000500 - 600000) = [?row]" by code_simp
  have g: "recentMemes_query memes_table (1000500 - 600000) = [?row] \<and> meme_id ?row = 1
           \<and> 0 < upvote_count ?row \<and> upvote_count ?row mod 10 = 0"
    using q by simp
  have a: "checkAndBroadcastTrendingMeme st_alice (Some memes_table) 1 1000500 ''t2'' None =
        emit (meme_highlight 1 (upvote_count ?row) ''t2'' None) st_alice"
    by (rule trending_highlight[OF h1, THEN conjunct2, THEN conjunct1, rule_format, OF g])
  have n: "\<not> (\<exists>m. recentMemes_query memes_table (1000500 - 600000) = [m] \<and> meme_id m = 2
                \<and> 0 < upvote_count m \<and> upvote_count m mod 10 = 0)"
    unfolding q by simp
  have b: "outbox (checkAndBroadcastTrendingMeme st_alice (Some memes_table) 2 1000500 ''t2'' None)
        = outbox st_alice"
    using trending_highlight[OF h1, THEN conjunct1, of memes_table 2 1000500 "''t2''" None] n
    by blast
  from a have a': "checkAndBroadcastTrendingMeme st_alice (Some memes_table) 1 1000500 ''t2'' None =
        emit (meme_highlight 1 20 ''t2'' None) st_alice" by simp
  show ?thesis
    by (intro conjI) (rule h1 q a' b)+
qed

section \<open>Authenticating again on the same connection\<close>

text \<open>
  C10. When a connected socket \<open>s\<close> that is authenticated as \<open>u\<close> authenticates as
  \<open>u\<close> again, \<open>removeUserFromPreviousSocket\<close> takes \<open>s\<close> itself for the previous
  connection: it issues \<open>disconnect(true)\<close> on \<open>s\<close>, after which \<open>s\<close> is not connected,
  its \<open>userSockets\<close> entry and the session of \<open>u\<close> are gone and one connection less is
  counted. The handler then writes the binding of \<open>u\<close> to \<open>s\<close> again, so \<open>u\<close> is online
  with the socket that was just closed.
\<close>

theorem reauthenticate_same_socket:
  assumes "reachable st" and "io_sockets_get st s \<noteq> None"
    and "map_of (userSockets st) s = Some u" and "auth_username d = Some u"
  shows "io_sockets_get (removeUserFromPreviousSocket st u now) s = None
       \<and> (\<exists>acts. outbox (removeUserFromPreviousSocket st u now) = outbox st @ SocketDisconnect s # acts)
       \<and> map_of (userSockets (removeUserFromPreviousSocket st u now)) s = None
       \<and> getUserInfo (removeUserFromPreviousSocket st u now) u = None
       \<and> io_sockets_get (handleAuthentication st s (Some d) now) s = None
       \<and> map_option socketId (getUserInfo (handleAuthentication st s (Some d) now) u) = Some s
       \<and> map_of (userSockets (handleAuthentication st s (Some d) now)) s = Some u
       \<and> isUserOnline (handleAuthentication st s (Some d) now) u
       \<and> currentConnections (connectionMetrics (handleAuthentication st s (Some d) now)) =
           currentConnections (connectionMetrics st) - 1"
proof -
  let ?st1 = "removeUserFromPreviousSocket st u now"
  let ?st' = "handleAuthentication st s (Some d) now"
  have inv: "us_cu_inv st" using assms(1) by (rule reachable_us_cu_inv)
  have "us_truthy st" using assms(1) by (rule reachable_us_truthy)
  then have ne: "u \<noteq> []" using assms(3) by (auto simp: us_truthy_def)
  from us_cu_invD[OF inv assms(3)] obtain prev
    where prev: "map_of (connectedUsers st) u = Some prev" "socketId prev = s" by blast
  note c = ru_previous_closed[OF prev assms(2), of now]
  note f = auth_fields[OF assms(4) ne, of st s now]
  from assms(2) obtain sock where sock: "io_sockets_get st s = Some sock" by auto
  have gone: "getUserInfo ?st1 u = None"
    using prev assms(3) ne
    by (simp add: getUserInfo_def ru_unfold sd_connected[OF sock] hd_simps emit_def AList.delete_conv')
  have a: "io_sockets_get ?st' s = None"
    using io_get_set_username[OF f(3), of s] c(1) by simp
  have b: "map_option socketId (getUserInfo ?st' u) = Some s"
    by (simp add: getUserInfo_def f(1) AList.update_conv')
  have b': "isUserOnline ?st' u"
    by (simp add: isUserOnline_def f(1) AList.update_conv')
  have e: "map_of (userSockets ?st') s = Some u"
    by (simp add: f(2) AList.update_conv')
  have m: "currentConnections (connectionMetrics ?st') = currentConnections (connectionMetrics st) - 1"
    by (simp add: f(5) c(4))
  show ?thesis using c(1,2,3) gone a b b' e m by simp
qed

theorem reauthenticate_same_socket_witness:
  "reachable st_lobby \<and> io_sockets_get st_lobby ''s1'' \<noteq> None
   \<and> map_of (userSockets st_lobby) ''s1'' = Some ''alice''
   \<and> auth_username alice_auth = Some ''alice''
   \<and> currentConnections (connectionMetrics st_lobby) = 1
   \<and> io_sockets_get (handleAuthentication st_lobby ''s1'' (Some alice_auth) ''t2'') ''s1'' = None
   \<and> SocketDisconnect ''s1'' \<in> set (outbox (removeUserFromPreviousSocket st_lobby ''alice'' ''t2''))
   \<and> isUserOnline (handleAuthentication st_lobby ''s1'' (Some alice_auth) ''t2'') ''alice''
   \<and> map_of (userSockets (handleAuthentication st_lobby ''s1'' (Some alice_auth) ''t2'')) ''s1''
        = Some ''alice''
   \<and> currentConnections
        (connectionMetrics (handleAuthentication st_lobby ''s1'' (Some alice_auth) ''t2'')) = 0"
proof -
  have h1: "io_sockets_get st_lobby ''s1'' \<noteq> None" by code_simp
  have h2: "map_of (userSockets st_lobby) ''s1'' = Some ''alice''" by code_simp
  have h3: "auth_username alice_auth = Some ''alice''" by code_simp
  have m: "currentConnections (connectionMetrics st_lobby) = 1" by code_simp
  note t = reauthenticate_same_socket[OF reachable_st_lobby h1 h2 h3, of "''t2''"]
  have "SocketDisconnect ''s1'' \<in> set (outbox (removeUserFromPreviousSocket st_lobby ''alice'' ''t2''))"
    using t by auto
  then show ?thesis
    using reachable_st_lobby h1 h2 h3 m t by simp
qed

end
